theory Spec2Isabelle
  imports Complex_Main "HOL-Library.Multiset" "HOL-Library.Log_Nat"
    "HOL-Library.List_Lexorder" "HOL-Library.Char_ord"
begin

section \<open>Python values the collectors work with\<close>

text \<open>
  Exceptions are values. Only subclasses of \<open>Exception\<close> are modelled (the handlers
  \<open>except Exception\<close> and a bare \<open>except\<close> then catch the same errors); the class
  hierarchy the handlers test is \<open>FileNotFoundError, PermissionError \<le> OSError\<close>.
\<close>

datatype exn =
    OSError | FileNotFoundError | PermissionError
  | TypeError | ValueError | OverflowError | AttributeError | KeyError | StructError
  | DatabaseError

definition is_OSError :: "exn \<Rightarrow> bool" where
  "is_OSError e = (e = OSError \<or> e = FileNotFoundError \<or> e = PermissionError)"

text \<open>
  A \<open>datetime\<close> is kept as the count of microseconds of its wall-clock fields since
  0001-01-01T00:00:00 together with its \<open>tzinfo\<close>: \<open>None\<close> for a naive value,
  \<open>Some off\<close> for an aware one whose \<open>utcoffset()\<close> is \<open>off\<close> microseconds
  (\<open>timezone.utc\<close> is \<open>Some 0\<close>).
\<close>

record datetime =
  wall :: int
  tzinfo :: "int option"

definition utc :: "int \<Rightarrow> datetime" where
  "utc w = \<lparr>wall = w, tzinfo = Some 0\<rparr>"

text \<open>The instant an aware value denotes: its wall clock minus its offset.\<close>

definition instant :: "datetime \<Rightarrow> int" where
  "instant d = (case tzinfo d of None \<Rightarrow> wall d | Some off \<Rightarrow> wall d - off)"

text \<open>
  \<open>a <= b\<close> and \<open>a < b\<close> on datetimes: two naive values compare their fields, two aware
  ones their instants, and a naive with an aware one raises \<open>TypeError\<close>.
\<close>

definition dt_le :: "datetime \<Rightarrow> datetime \<Rightarrow> exn + bool" where
  "dt_le a b =
     (if (tzinfo a = None) = (tzinfo b = None) then Inr (instant a \<le> instant b)
      else Inl TypeError)"

definition dt_lt :: "datetime \<Rightarrow> datetime \<Rightarrow> exn + bool" where
  "dt_lt a b =
     (if (tzinfo a = None) = (tzinfo b = None) then Inr (instant a < instant b)
      else Inl TypeError)"

text \<open>
  A \<open>timedelta\<close> is its total in microseconds; the constructor refuses a magnitude
  of more than 999999999 days. \<open>datetime + timedelta\<close> keeps the \<open>tzinfo\<close> and
  raises \<open>OverflowError\<close> outside \<open>datetime.min .. datetime.max\<close>
  (0001-01-01T00:00:00 .. 9999-12-31T23:59:59.999999, ordinals 1 .. 3652059).
\<close>

type_synonym timedelta = int

definition US_PER_DAY :: int where
  "US_PER_DAY = 86400000000"

definition DATETIME_MAX :: int where
  "DATETIME_MAX = 3652059 * US_PER_DAY - 1"

definition timedelta_new :: "int \<Rightarrow> exn + timedelta" where
  "timedelta_new us =
     (if \<bar>us div US_PER_DAY\<bar> > 999999999 then Inl OverflowError else Inr us)"

definition dt_add :: "datetime \<Rightarrow> timedelta \<Rightarrow> exn + datetime" where
  "dt_add d td =
     (let w = wall d + td in
      if 0 \<le> w \<and> w \<le> DATETIME_MAX then Inr (d\<lparr>wall := w\<rparr>) else Inl OverflowError)"

definition dt_sub :: "datetime \<Rightarrow> timedelta \<Rightarrow> exn + datetime" where
  "dt_sub d td = dt_add d (- td)"

section \<open>Python floats and the calendar\<close>

text \<open>
  A finite \<open>float\<close> is the rational it denotes. \<open>float_round\<close> rounds a rational to
  the nearest IEEE 754 binary64 value, ties to even (53 significant bits, gradual
  underflow below \<open>2\<^sup>-\<^sup>1\<^sup>0\<^sup>2\<^sup>2\<close>); \<open>ilog2\<close> is the exponent \<open>\<lfloor>log\<^sub>2 x\<rfloor>\<close> of a positive
  rational. \<open>int / int\<close> is correctly rounded and raises \<open>OverflowError\<close> when the
  quotient is too large for a float; the divisors of this program are non-zero
  literals. \<open>round\<close> on a float rounds half to even.
\<close>

definition round_half_even :: "rat \<Rightarrow> int" where
  "round_half_even x =
     (let f = \<lfloor>x\<rfloor>; r = x - of_int f in
      if r < 1 / 2 then f else if 1 / 2 < r then f + 1 else if even f then f else f + 1)"

definition ilog2 :: "rat \<Rightarrow> int" where
  "ilog2 x =
     (let (a, b) = quotient_of x; k = bitlen a - bitlen b in
      if 2 powi k \<le> x then k else k - 1)"

definition float_round :: "rat \<Rightarrow> rat" where
  "float_round x =
     (if x = 0 then 0
      else (let u = 2 powi (max (ilog2 \<bar>x\<bar> - 52) (- 1074)) in
            of_int (round_half_even (x / u)) * u))"

definition py_truediv :: "int \<Rightarrow> int \<Rightarrow> exn + rat" where
  "py_truediv a b =
     (let q = float_round (of_int a / of_int b) in
      if 2 powi 1024 \<le> \<bar>q\<bar> then Inl OverflowError else Inr q)"

text \<open>The integral part that \<open>modf\<close> splits off: truncation towards zero.\<close>

definition py_trunc :: "rat \<Rightarrow> int" where
  "py_trunc x = (if 0 \<le> x then \<lfloor>x\<rfloor> else \<lceil>x\<rceil>)"

text \<open>
  \<open>timedelta(seconds=x)\<close> for a float \<open>x\<close>: the whole seconds are kept exactly, the
  fraction is multiplied by \<open>1e6\<close> in floating point and rounded half to even to whole
  microseconds.
\<close>

definition timedelta_seconds :: "rat \<Rightarrow> exn + timedelta" where
  "timedelta_seconds x =
     (let ip = py_trunc x;
          usdouble = float_round ((x - of_int ip) * 1000000)
      in timedelta_new (ip * 1000000 + round_half_even usdouble))"

text \<open>
  The proleptic Gregorian calendar of the \<open>datetime\<close> module: the ordinal of a date
  (0001-01-01 is day 1) and back, and \<open>datetime(year, month, day, tzinfo=timezone.utc)\<close>.
\<close>

definition is_leap :: "int \<Rightarrow> bool" where
  "is_leap y = (y mod 4 = 0 \<and> (y mod 100 \<noteq> 0 \<or> y mod 400 = 0))"

definition days_before_year :: "int \<Rightarrow> int" where
  "days_before_year year = (let y = year - 1 in y * 365 + y div 4 - y div 100 + y div 400)"

definition DAYS_IN_MONTH :: "int list" where
  "DAYS_IN_MONTH = [- 1, 31, 28, 31, 30, 31, 30, 31, 31, 30, 31, 30, 31]"

definition DAYS_BEFORE_MONTH :: "int list" where
  "DAYS_BEFORE_MONTH = [- 1, 0, 31, 59, 90, 120, 151, 181, 212, 243, 273, 304, 334]"

definition days_before_month :: "int \<Rightarrow> int \<Rightarrow> int" where
  "days_before_month year month =
     DAYS_BEFORE_MONTH ! nat month + (if 2 < month \<and> is_leap year then 1 else 0)"

definition ymd2ord :: "int \<Rightarrow> int \<Rightarrow> int \<Rightarrow> int" where
  "ymd2ord year month day = days_before_year year + days_before_month year month + day"

definition datetime_utc :: "int \<Rightarrow> int \<Rightarrow> int \<Rightarrow> datetime" where
  "datetime_utc year month day = utc ((ymd2ord year month day - 1) * US_PER_DAY)"

definition ord2ymd :: "int \<Rightarrow> int \<times> int \<times> int" where
  "ord2ymd ordinal =
     (let n = ordinal - 1;
          n400 = n div 146097; na = n mod 146097;
          n100 = na div 36524; nb = na mod 36524;
          n4 = nb div 1461; nc = nb mod 1461;
          n1 = nc div 365; nd = nc mod 365;
          year = n400 * 400 + 1 + n100 * 100 + n4 * 4 + n1
      in if n1 = 4 \<or> n100 = 4 then (year - 1, 12, 31)
         else (let leapyear = (n1 = 3 \<and> (n4 \<noteq> 24 \<or> n100 = 3));
                   month = (nd + 50) div 32;
                   preceding = DAYS_BEFORE_MONTH ! nat month
                     + (if 2 < month \<and> leapyear then 1 else 0)
               in if nd < preceding
                  then (year, month - 1,
                        nd - (preceding - (DAYS_IN_MONTH ! nat (month - 1)
                          + (if month - 1 = 2 \<and> leapyear then 1 else 0))) + 1)
                  else (year, month, nd - preceding + 1)))"

text \<open>
  \<open>datetime.fromtimestamp(t, tz=timezone.utc)\<close> for a float \<open>t\<close>: the fraction is
  rounded half to even to microseconds, carrying into the seconds; the seconds must fit
  \<open>time_t\<close> (\<open>OverflowError\<close>), the platform's \<open>gmtime\<close> must accept them
  (\<open>OSError\<close>; \<open>gmtime_ok\<close> is the platform's answer), and the year must be in
  1..9999 (\<open>ValueError\<close>).
\<close>

definition fromtimestamp_utc :: "(int \<Rightarrow> bool) \<Rightarrow> rat \<Rightarrow> exn + datetime" where
  "fromtimestamp_utc gmtime_ok t =
     (let ip = py_trunc t;
          fl = round_half_even (float_round ((t - of_int ip) * 1000000));
          sec = (if 1000000 \<le> fl then ip + 1 else if fl < 0 then ip - 1 else ip);
          us = (if 1000000 \<le> fl then fl - 1000000 else if fl < 0 then fl + 1000000 else fl)
      in if sec < - (2 ^ 63) \<or> 2 ^ 63 \<le> sec then Inl OverflowError
         else if \<not> gmtime_ok sec then Inl OSError
         else (let w = wall (datetime_utc 1970 1 1) + sec * 1000000 + us in
               if 0 \<le> w \<and> w \<le> DATETIME_MAX then Inr (utc w) else Inl ValueError))"

text \<open>
  The \<open>gmtime\<close> of the Windows C runtime, for the examples: it accepts
  1970-01-01T00:00:00Z up to 3000-12-31T23:59:59Z.
\<close>

definition gmtime_ok_windows :: "int \<Rightarrow> bool" where
  "gmtime_ok_windows sec = (0 \<le> sec \<and> sec \<le> 32535215999)"

section \<open>core/time\_window.py\<close>

record TriageWindow =
  window_minutes :: int
  current_time :: datetime
  cutoff_time :: datetime

text \<open>
  \<open>is_within_window\<close>: \<open>None\<close> is outside; a naive timestamp gets
  \<open>tzinfo=timezone.utc\<close>; then the chained comparison
  \<open>cutoff_time <= timestamp <= current_time\<close>, which evaluates its second half only
  when the first holds.
\<close>

definition is_within_window :: "TriageWindow \<Rightarrow> datetime option \<Rightarrow> exn + bool" where
  "is_within_window self timestamp =
     (case timestamp of
        None \<Rightarrow> Inr False
      | Some t0 \<Rightarrow>
          (let t = (if tzinfo t0 = None then t0\<lparr>tzinfo := Some 0\<rparr> else t0) in
           case dt_le (cutoff_time self) t of
             Inl e \<Rightarrow> Inl e
           | Inr False \<Rightarrow> Inr False
           | Inr True \<Rightarrow> dt_le t (current_time self)))"

text \<open>
  The constructor: \<open>now\<close> is the reading of \<open>datetime.now(timezone.utc)\<close>, in
  microseconds since 0001-01-01T00:00:00Z.
\<close>

definition TriageWindow_init :: "int \<Rightarrow> int \<Rightarrow> exn + TriageWindow" where
  "TriageWindow_init now minutes =
     (case timedelta_new (minutes * 60000000) of
        Inl e \<Rightarrow> Inl e
      | Inr td \<Rightarrow>
          (case dt_sub (utc now) td of
             Inl e \<Rightarrow> Inl e
           | Inr c \<Rightarrow>
               Inr \<lparr>window_minutes = minutes, current_time = utc now, cutoff_time = c\<rparr>))"

text \<open>
  \<open>filetime_to_datetime\<close>: \<open>None\<close> and 0 give \<open>None\<close>; otherwise
  \<open>FILETIME_EPOCH + timedelta(seconds=filetime / 10000000)\<close>, and the handler turns
  \<open>ValueError\<close>, \<open>OverflowError\<close> and \<open>TypeError\<close> into \<open>None\<close>. The argument is an
  integer or \<open>None\<close>, as \<open>struct.unpack\<close> and \<open>winreg.QueryInfoKey\<close> supply it.
\<close>

definition filetime_to_datetime :: "int option \<Rightarrow> exn + datetime option" where
  "filetime_to_datetime filetime =
     (let body =
        (case filetime of
           None \<Rightarrow> Inr None
         | Some ft \<Rightarrow>
             if ft = 0 then Inr None
             else (case py_truediv ft 10000000 of
                     Inl e \<Rightarrow> Inl e
                   | Inr seconds_since_epoch \<Rightarrow>
                       (case timedelta_seconds seconds_since_epoch of
                          Inl e \<Rightarrow> Inl e
                        | Inr td \<Rightarrow>
                            (case dt_add (datetime_utc 1601 1 1) td of
                               Inl e \<Rightarrow> Inl e
                             | Inr timestamp \<Rightarrow> Inr (Some timestamp)))))
      in case body of
           Inl e \<Rightarrow>
             if e = ValueError \<or> e = OverflowError \<or> e = TypeError then Inr None else Inl e
         | Inr r \<Rightarrow> Inr r)"

section \<open>collectors/network.py: the browser epochs\<close>

text \<open>
  Chrome and Edge rows: \<open>chrome_epoch + timedelta(microseconds=visit_time)\<close> with
  \<open>chrome_epoch = datetime(1601, 1, 1, tzinfo=timezone.utc)\<close>, in integers. Firefox rows:
  \<open>datetime.fromtimestamp(visit_date / 1000000, tz=timezone.utc)\<close>, through a float.
\<close>

definition chrome_visit_dt :: "int \<Rightarrow> exn + datetime" where
  "chrome_visit_dt visit_time =
     (case timedelta_new visit_time of
        Inl e \<Rightarrow> Inl e
      | Inr td \<Rightarrow> dt_add (datetime_utc 1601 1 1) td)"

definition firefox_visit_dt :: "(int \<Rightarrow> bool) \<Rightarrow> int \<Rightarrow> exn + datetime" where
  "firefox_visit_dt gmtime_ok visit_date =
     (case py_truediv visit_date 1000000 of
        Inl e \<Rightarrow> Inl e
      | Inr t \<Rightarrow> fromtimestamp_utc gmtime_ok t)"

section \<open>Strings and formatting\<close>

text \<open>
  Python \<open>str\<close> and \<open>bytes\<close> values are both lists of 8-bit characters; the case
  mappings below cover the ASCII letters.
\<close>

definition BACKSLASH :: char where
  "BACKSLASH = CHR 0x5C"

definition NUL :: char where
  "NUL = CHR 0x00"

text \<open>\<open>sep.join(parts)\<close>\<close>

fun join_sep :: "string \<Rightarrow> string list \<Rightarrow> string" where
  "join_sep sep [] = []"
| "join_sep sep [x] = x"
| "join_sep sep (x # y # ys) = x @ sep @ join_sep sep (y # ys)"

text \<open>\<open>s.split(c)\<close> for a one-character separator: never empty.\<close>

fun split_char :: "char \<Rightarrow> string \<Rightarrow> string list" where
  "split_char c [] = [[]]"
| "split_char c (x # xs) =
     (if x = c then [] # split_char c xs
      else (case split_char c xs of
              [] \<Rightarrow> [[x]]
            | p # ps \<Rightarrow> (x # p) # ps))"

text \<open>\<open>s.rstrip(chars)\<close> removes every trailing character that occurs in \<open>chars\<close>.\<close>

definition rstrip_chars :: "string \<Rightarrow> string \<Rightarrow> string" where
  "rstrip_chars chars s = rev (dropWhile (\<lambda>c. c \<in> set chars) (rev s))"

text \<open>The characters \<open>str.strip()\<close> removes, and whether \<open>s.strip()\<close> is non-empty.\<close>

definition is_space :: "char \<Rightarrow> bool" where
  "is_space c = (c \<in> set [CHR 0x09, CHR 0x0A, CHR 0x0B, CHR 0x0C, CHR 0x0D,
     CHR 0x1C, CHR 0x1D, CHR 0x1E, CHR 0x1F, CHR 0x20, CHR 0x85, CHR 0xA0])"

definition strip_nonempty :: "string \<Rightarrow> bool" where
  "strip_nonempty s = (\<exists>c \<in> set s. \<not> is_space c)"

definition ascii_upper :: "char \<Rightarrow> char" where
  "ascii_upper c =
     (let n = (of_char c :: nat) in if 97 \<le> n \<and> n \<le> 122 then char_of (n - 32) else c)"

definition str_upper :: "string \<Rightarrow> string" where
  "str_upper s = map ascii_upper s"

text \<open>\<open>codecs.decode(s, 'rot_13')\<close>\<close>

definition rot13_char :: "char \<Rightarrow> char" where
  "rot13_char c =
     (let n = (of_char c :: nat) in
      if 97 \<le> n \<and> n \<le> 122 then char_of (97 + (n - 97 + 13) mod 26)
      else if 65 \<le> n \<and> n \<le> 90 then char_of (65 + (n - 65 + 13) mod 26)
      else c)"

definition rot13 :: "string \<Rightarrow> string" where
  "rot13 s = map rot13_char s"

text \<open>\<open>str(n)\<close> for an integer, and zero padding to a width.\<close>

function str_nat :: "nat \<Rightarrow> string" where
  "str_nat n =
     (if n < 10 then [''0123456789'' ! n]
      else str_nat (n div 10) @ [''0123456789'' ! (n mod 10)])"
  by pat_completeness auto
termination
  by (relation "measure id") auto

definition str_int :: "int \<Rightarrow> string" where
  "str_int i = (if i < 0 then CHR ''-'' # str_nat (nat (- i)) else str_nat (nat i))"

definition zero_pad :: "nat \<Rightarrow> int \<Rightarrow> string" where
  "zero_pad width i =
     (let s = str_int i in replicate (width - length s) CHR ''0'' @ s)"

text \<open>\<open>struct.unpack('<Q', b)[0]\<close> and \<open>'<I'\<close>: the little-endian value of the bytes.\<close>

fun le_uint :: "string \<Rightarrow> int" where
  "le_uint [] = 0"
| "le_uint (b # bs) = int (of_char b) + 256 * le_uint bs"

section \<open>Findings\<close>

text \<open>
  A finding is a Python dict, kept as the list of its items in insertion order; a dict
  literal with distinct keys is the list of its pairs. The values the collectors store
  are strings and datetimes.
\<close>

datatype pyval =
  PyNone | PyStr string | PyBytes string | PyInt int | PyStrList "string list" | PyDatetime datetime

type_synonym finding = "(string \<times> pyval) list"

definition dict_get :: "finding \<Rightarrow> string \<Rightarrow> pyval \<Rightarrow> pyval" where
  "dict_get d k dflt = (case map_of d k of None \<Rightarrow> dflt | Some v \<Rightarrow> v)"

section \<open>tracefinder.py: sorting\<close>

text \<open>
  \<open>a < b\<close> on Python values: datetimes as above, strings, bytes, integers and lists
  of strings in their own order, and every other pair (a \<open>None\<close>, two different types)
  raises \<open>TypeError\<close>.
\<close>

fun py_lt :: "pyval \<Rightarrow> pyval \<Rightarrow> exn + bool" where
  "py_lt (PyDatetime a) (PyDatetime b) = dt_lt a b"
| "py_lt (PyStr a) (PyStr b) = Inr (a < b)"
| "py_lt (PyBytes a) (PyBytes b) = Inr (a < b)"
| "py_lt (PyStrList a) (PyStrList b) = Inr (a < b)"
| "py_lt (PyInt a) (PyInt b) = Inr (a < b)"
| "py_lt _ _ = Inl TypeError"

text \<open>
  \<open>sorted(xs, key=key, reverse=reverse)\<close>. The list sort is stable and compares with
  \<open><\<close> only; with \<open>reverse=True\<close> it reverses the list, sorts ascending and reverses
  again, which keeps equal keys in input order. The ascending sort is written as the
  insertion of each element behind the elements that are not greater; a comparison
  that raises ends the sort with that exception. A list of fewer than two elements is
  never compared.
\<close>

fun py_insort :: "('a \<Rightarrow> pyval) \<Rightarrow> 'a \<Rightarrow> 'a list \<Rightarrow> exn + 'a list" where
  "py_insort key x [] = Inr [x]"
| "py_insort key x (y # ys) =
     (case py_lt (key x) (key y) of
        Inl e \<Rightarrow> Inl e
      | Inr True \<Rightarrow> Inr (x # y # ys)
      | Inr False \<Rightarrow>
          (case py_insort key x ys of Inl e \<Rightarrow> Inl e | Inr r \<Rightarrow> Inr (y # r)))"

fun py_sort_from :: "('a \<Rightarrow> pyval) \<Rightarrow> 'a list \<Rightarrow> 'a list \<Rightarrow> exn + 'a list" where
  "py_sort_from key acc [] = Inr acc"
| "py_sort_from key acc (x # xs) =
     (case py_insort key x acc of Inl e \<Rightarrow> Inl e | Inr acc' \<Rightarrow> py_sort_from key acc' xs)"

definition py_sorted :: "'a list \<Rightarrow> ('a \<Rightarrow> pyval) \<Rightarrow> bool \<Rightarrow> exn + 'a list" where
  "py_sorted xs key reverse =
     (if reverse then
        (case py_sort_from key [] (rev xs) of Inl e \<Rightarrow> Inl e | Inr r \<Rightarrow> Inr (rev r))
      else py_sort_from key [] xs)"

text \<open>
  The key of \<open>sort_findings_by_timestamp\<close>:
  \<open>lambda x: x.get('timestamp_dt', datetime.min.replace(tzinfo=timezone.utc))\<close>.
\<close>

definition sort_key_of :: "finding \<Rightarrow> pyval" where
  "sort_key_of x = dict_get x ''timestamp_dt'' (PyDatetime (utc 0))"

definition sort_findings_by_timestamp :: "finding list \<Rightarrow> finding list" where
  "sort_findings_by_timestamp findings =
     (case py_sorted findings sort_key_of True of
        Inl e \<Rightarrow> findings
      | Inr sorted_findings \<Rightarrow> sorted_findings)"

text \<open>The instant a finding is sorted by, for the statements below.\<close>

definition finding_instant :: "finding \<Rightarrow> int" where
  "finding_instant f = (case sort_key_of f of PyDatetime d \<Rightarrow> instant d | _ \<Rightarrow> 0)"

definition aware_key :: "finding \<Rightarrow> bool" where
  "aware_key f = (case sort_key_of f of PyDatetime d \<Rightarrow> tzinfo d \<noteq> None | _ \<Rightarrow> False)"

text \<open>The same insertion sort on integer keys, where no comparison can raise.\<close>

fun insort_after :: "('a \<Rightarrow> int) \<Rightarrow> 'a \<Rightarrow> 'a list \<Rightarrow> 'a list" where
  "insort_after k x [] = [x]"
| "insort_after k x (y # ys) = (if k x < k y then x # y # ys else y # insort_after k x ys)"

fun sort_from :: "('a \<Rightarrow> int) \<Rightarrow> 'a list \<Rightarrow> 'a list \<Rightarrow> 'a list" where
  "sort_from k acc [] = acc"
| "sort_from k acc (x # xs) = sort_from k (insort_after k x acc) xs"

section \<open>The host the collectors read\<close>

datatype hive = HKEY_CURRENT_USER | HKEY_LOCAL_MACHINE

datatype regval =
  RegSz string | RegBinary string | RegDword int | RegNone | RegMultiSz "string list"

record regkey =
  key_info :: "exn + int"
  key_values :: "(string \<times> regval) list"
  key_subkeys :: "string list"
  key_query :: "string \<Rightarrow> exn + regval"

record stat_result =
  st_mtime :: rat
  st_ctime :: rat

record history_row =
  url :: "string option"
  title :: "string option"
  visit_count :: "int option"
  visit_time :: "int option"

record download_row =
  target_path :: "string option"
  tab_url :: "string option"
  start_time :: "int option"
  total_bytes :: "int option"
  mime_type :: "string option"

record env =
  getenv :: "string \<Rightarrow> string option"
  OpenKey :: "hive \<Rightarrow> string \<Rightarrow> exn + regkey"
  path_exists :: "string \<Rightarrow> exn + bool"
  path_glob :: "string \<Rightarrow> string \<Rightarrow> exn + string list"
  path_stat :: "string \<Rightarrow> exn + stat_result"
  read_bytes :: "string \<Rightarrow> exn + string"
  read_lines :: "string \<Rightarrow> exn + string list"
  history_rows :: "string \<Rightarrow> exn + history_row list"
  download_rows :: "string \<Rightarrow> exn + download_row list"
  gmtime_ok :: "int \<Rightarrow> bool"
  path_name :: "string \<Rightarrow> string"
  decode_utf16le :: "string \<Rightarrow> string"

definition path_join :: "string \<Rightarrow> string list \<Rightarrow> string" where
  "path_join base parts = join_sep [BACKSLASH] (base # parts)"

datatype loop_action = Continue | Break | Propagate

fun for_each ::
  "('x \<Rightarrow> 's \<Rightarrow> 's \<times> exn option) \<Rightarrow> (exn \<Rightarrow> loop_action) \<Rightarrow> 'x list \<Rightarrow> 's \<Rightarrow> 's \<times> exn option"
where
  "for_each body handler [] s = (s, None)"
| "for_each body handler (x # xs) s =
     (case body x s of
        (s', None) \<Rightarrow> for_each body handler xs s'
      | (s', Some e) \<Rightarrow>
          (case handler e of
             Continue \<Rightarrow> for_each body handler xs s'
           | Break \<Rightarrow> (s', None)
           | Propagate \<Rightarrow> (s', Some e)))"

section \<open>Findings the collectors build\<close>

definition strftime_seconds :: "datetime \<Rightarrow> string" where
  "strftime_seconds d =
     (let (y, m, dd) = ord2ymd (wall d div US_PER_DAY + 1);
          r = wall d mod US_PER_DAY
      in zero_pad 4 y @ ''-'' @ zero_pad 2 m @ ''-'' @ zero_pad 2 dd @ '' ''
         @ zero_pad 2 (r div 3600000000) @ '':'' @ zero_pad 2 (r div 60000000 mod 60)
         @ '':'' @ zero_pad 2 (r div 1000000 mod 60))"

definition strftime_utc :: "datetime \<Rightarrow> string" where
  "strftime_utc d = strftime_seconds d @ '' UTC''"

definition make_finding ::
  "datetime \<Rightarrow> string \<Rightarrow> string \<Rightarrow> pyval \<Rightarrow> string \<Rightarrow> finding" where
  "make_finding ts artifact_type source description details =
     [(''timestamp'', PyStr (strftime_utc ts)),
      (''timestamp_dt'', PyDatetime ts),
      (''artifact_type'', PyStr artifact_type),
      (''source'', PyStr source),
      (''description'', description),
      (''details'', PyStr details)]"

definition pyval_of_regval :: "regval \<Rightarrow> pyval" where
  "pyval_of_regval v =
     (case v of
        RegSz s \<Rightarrow> PyStr s
      | RegBinary b \<Rightarrow> PyBytes b
      | RegDword i \<Rightarrow> PyInt i
      | RegNone \<Rightarrow> PyNone
      | RegMultiSz l \<Rightarrow> PyStrList l)"

definition regval_truthy :: "regval \<Rightarrow> bool" where
  "regval_truthy v =
     (case v of
        RegSz s \<Rightarrow> s \<noteq> []
      | RegBinary b \<Rightarrow> b \<noteq> []
      | RegDword i \<Rightarrow> i \<noteq> 0
      | RegNone \<Rightarrow> False
      | RegMultiSz l \<Rightarrow> l \<noteq> [])"

definition regval_len :: "regval \<Rightarrow> exn + nat" where
  "regval_len v =
     (case v of
        RegSz s \<Rightarrow> Inr (length s)
      | RegBinary b \<Rightarrow> Inr (length b)
      | RegMultiSz l \<Rightarrow> Inr (length l)
      | _ \<Rightarrow> Inl TypeError)"

definition unpack_uint :: "regval \<Rightarrow> nat \<Rightarrow> nat \<Rightarrow> exn + int" where
  "unpack_uint v i j =
     (case v of
        RegBinary b \<Rightarrow>
          (let piece = take (j - i) (drop i b) in
           if length piece = j - i then Inr (le_uint piece) else Inl StructError)
      | _ \<Rightarrow> Inl TypeError)"

text \<open>The body of a loop that appends what one record yields.\<close>

definition append_step ::
  "('x \<Rightarrow> exn + finding list) \<Rightarrow> 'x \<Rightarrow> finding list \<Rightarrow> finding list \<times> exn option" where
  "append_step step x findings =
     (case step x of Inl e \<Rightarrow> (findings, Some e) | Inr new \<Rightarrow> (findings @ new, None))"

definition on_OSError :: "loop_action \<Rightarrow> exn \<Rightarrow> loop_action" where
  "on_OSError act e = (if is_OSError e then act else Propagate)"

definition on_missing_or_denied :: "loop_action \<Rightarrow> exn \<Rightarrow> loop_action" where
  "on_missing_or_denied act e =
     (if e = FileNotFoundError \<or> e = PermissionError then act else Propagate)"

text \<open>
  \<open>if ts and triage_window.is_within_window(ts): findings.append(...)\<close>, for the
  outcome of a timestamp conversion.
\<close>

definition emit_if_in_window ::
  "TriageWindow \<Rightarrow> datetime option \<Rightarrow> (datetime \<Rightarrow> finding) \<Rightarrow> exn + finding list" where
  "emit_if_in_window w ts mk =
     (case ts of
        None \<Rightarrow> Inr []
      | Some d \<Rightarrow>
          (case is_within_window w (Some d) of
             Inl e \<Rightarrow> Inl e
           | Inr False \<Rightarrow> Inr []
           | Inr True \<Rightarrow> Inr [mk d]))"

section \<open>collectors/execution.py\<close>

definition userassist_base_path :: string where
  "userassist_base_path = path_join ''Software''
     [''Microsoft'', ''Windows'', ''CurrentVersion'', ''Explorer'', ''UserAssist'']"

definition userassist_guids :: "string list" where
  "userassist_guids =
     [''{CEBFF5CD-ACE2-4F4F-9178-9926F41749EA}'', ''{F4E57C4B-2036-45F0-A9AB-443BCFE33D9F}'']"

definition userassist_value :: "TriageWindow \<Rightarrow> string \<times> regval \<Rightarrow> exn + finding list" where
  "userassist_value w nv =
     (let val_name = fst nv; val_data = snd nv; decoded_name = rot13 val_name in
      case regval_len val_data of
        Inl e \<Rightarrow> Inl e
      | Inr n \<Rightarrow>
          if 72 \<le> n then
            (case unpack_uint val_data 60 68 of
               Inl e \<Rightarrow> Inl e
             | Inr last_run_filetime \<Rightarrow>
                 (case unpack_uint val_data 4 8 of
                    Inl e \<Rightarrow> Inl e
                  | Inr run_count \<Rightarrow>
                      (case unpack_uint val_data 8 12 of
                         Inl e \<Rightarrow> Inl e
                       | Inr focus_time \<Rightarrow>
                           (case filetime_to_datetime (Some last_run_filetime) of
                              Inl e \<Rightarrow> Inl e
                            | Inr last_run_dt \<Rightarrow>
                                emit_if_in_window w last_run_dt
                                  (\<lambda>d. make_finding d ''Execution'' ''UserAssist''
                                     (PyStr decoded_name)
                                     (''Run Count: '' @ str_int run_count
                                      @ '', Focus Time: '' @ str_int focus_time @ ''ms''))))))
          else Inr [])"

definition userassist_guid ::
  "env \<Rightarrow> TriageWindow \<Rightarrow> string \<Rightarrow> finding list \<Rightarrow> finding list \<times> exn option" where
  "userassist_guid host w guid findings =
     (case OpenKey host HKEY_CURRENT_USER (path_join userassist_base_path [guid, ''Count'']) of
        Inl e \<Rightarrow> (findings, Some e)
      | Inr key \<Rightarrow>
          for_each (append_step (userassist_value w)) (on_OSError Break)
            (key_values key) findings)"

definition parse_userassist :: "env \<Rightarrow> TriageWindow \<Rightarrow> exn + finding list" where
  "parse_userassist host w =
     Inr (fst (for_each (userassist_guid host w) (on_missing_or_denied Continue)
                userassist_guids []))"

definition prefetch_path :: string where
  "prefetch_path = path_join ''C:'' [''Windows'', ''Prefetch'']"

text \<open>\<open>Path.stem\<close> of a file name: the name without its last suffix.\<close>

definition path_stem :: "string \<Rightarrow> string" where
  "path_stem name =
     (let ext = takeWhile (\<lambda>c. c \<noteq> CHR ''.'') (rev name);
          i = length name - length ext - 1
      in if CHR ''.'' \<in> set name \<and> 0 < i \<and> ext \<noteq> [] then take i name else name)"

definition prefetch_executable_name :: "string \<Rightarrow> string" where
  "prefetch_executable_name file_name =
     (if CHR ''-'' \<in> set file_name
      then str_upper (join_sep ''-'' (butlast (split_char CHR ''-'' file_name)))
      else str_upper file_name)"

definition prefetch_file :: "env \<Rightarrow> TriageWindow \<Rightarrow> string \<Rightarrow> exn + finding list" where
  "prefetch_file host w name =
     (let pf_file = path_join prefetch_path [name] in
      case path_stat host pf_file of
        Inl e \<Rightarrow> Inl e
      | Inr st \<Rightarrow>
          (case fromtimestamp_utc (gmtime_ok host) (st_mtime st) of
             Inl e \<Rightarrow> Inl e
           | Inr mod_time \<Rightarrow>
               emit_if_in_window w (Some mod_time)
                 (\<lambda>d. make_finding d ''Execution'' ''Prefetch''
                    (PyStr (prefetch_executable_name (path_stem name)))
                    (''File: '' @ pf_file))))"

definition parse_prefetch :: "env \<Rightarrow> TriageWindow \<Rightarrow> exn + finding list" where
  "parse_prefetch host w =
     (let body =
        (case path_exists host prefetch_path of
           Inl e \<Rightarrow> ([], Some e)
         | Inr False \<Rightarrow> ([], None)
         | Inr True \<Rightarrow>
             (case path_glob host prefetch_path ''*.pf'' of
                Inl e \<Rightarrow> ([], Some e)
              | Inr names \<Rightarrow>
                  for_each (append_step (prefetch_file host w)) (on_OSError Continue) names []))
      in case body of
           (findings, None) \<Rightarrow> Inr findings
         | (findings, Some e) \<Rightarrow> if e = PermissionError then Inr findings else Inl e)"

section \<open>collectors/files.py\<close>

text \<open>
  \<open>re.findall\<close> for the two patterns of \<open>extract_lnk_target\<close>, on the bytes read as
  latin-1. The first, a drive path: a capital letter, a colon, a backslash, then one or
  more characters other than NUL. The second, a UNC path: two backslashes, one or more
  characters other than a backslash, a backslash, then one or more characters other
  than NUL. Matches do not overlap; the search goes on behind a match.
\<close>

definition is_capital :: "char \<Rightarrow> bool" where
  "is_capital c = (65 \<le> (of_char c :: nat) \<and> (of_char c :: nat) \<le> 90)"

function findall_drive :: "string \<Rightarrow> string list" where
  "findall_drive [] = []"
| "findall_drive (c # cs) =
     (if is_capital c \<and> take 2 cs = [CHR '':'', BACKSLASH]
         \<and> takeWhile (\<lambda>x. x \<noteq> NUL) (drop 2 cs) \<noteq> []
      then (c # take 2 cs @ takeWhile (\<lambda>x. x \<noteq> NUL) (drop 2 cs))
           # findall_drive (dropWhile (\<lambda>x. x \<noteq> NUL) (drop 2 cs))
      else findall_drive cs)"
  by pat_completeness auto
termination
proof (relation "measure length", goal_cases)
  case 1
  then show ?case by simp
next
  case (2 c cs)
  have "length (dropWhile (\<lambda>x. x \<noteq> NUL) (drop 2 cs)) \<le> length (drop 2 cs)"
    by (rule length_dropWhile_le)
  also have "\<dots> \<le> length cs" by simp
  finally show ?case by simp
next
  case 3
  then show ?case by simp
qed

function findall_unc :: "string \<Rightarrow> string list" where
  "findall_unc [] = []"
| "findall_unc (c # cs) =
     (let server = takeWhile (\<lambda>x. x \<noteq> BACKSLASH) (drop 1 cs);
          after = dropWhile (\<lambda>x. x \<noteq> BACKSLASH) (drop 1 cs);
          tail = takeWhile (\<lambda>x. x \<noteq> NUL) (drop 1 after)
      in if c = BACKSLASH \<and> take 1 cs = [BACKSLASH] \<and> server \<noteq> [] \<and> after \<noteq> [] \<and> tail \<noteq> []
         then (c # take 1 cs @ server @ take 1 after @ tail)
              # findall_unc (dropWhile (\<lambda>x. x \<noteq> NUL) (drop 1 after))
         else findall_unc cs)"
  by pat_completeness auto
termination
proof (relation "measure length", goal_cases)
  case 1
  then show ?case by simp
next
  case (2 c cs server after tail)
  have "length (dropWhile (\<lambda>x. x \<noteq> NUL) (drop 1 after)) \<le> length (drop 1 after)"
    by (rule length_dropWhile_le)
  also have "\<dots> \<le> length after" by simp
  also have "\<dots> \<le> length (drop 1 cs)" unfolding 2(2) by (rule length_dropWhile_le)
  also have "\<dots> \<le> length cs" by simp
  finally show ?case by simp
next
  case 3
  then show ?case by simp
qed

definition extract_lnk_target :: "env \<Rightarrow> string \<Rightarrow> string" where
  "extract_lnk_target host lnk_path =
     (case read_bytes host lnk_path of
        Inl e \<Rightarrow> ''Error parsing .lnk file''
      | Inr content \<Rightarrow>
          if length content < 4 \<or> hd content \<noteq> CHR 0x4C then ''Invalid .lnk file''
          else (case filter (\<lambda>cleaned_path. 3 < length cleaned_path)
                       (map (takeWhile (\<lambda>x. x \<noteq> NUL))
                          (findall_drive content @ findall_unc content)) of
                  [] \<Rightarrow> ''Unable to parse target path''
                | cleaned_path # _ \<Rightarrow> cleaned_path))"

text \<open>\<open>max(a, b)\<close> on two aware datetimes: the first of the greatest.\<close>

definition dt_max :: "datetime \<Rightarrow> datetime \<Rightarrow> datetime" where
  "dt_max a b = (if instant a < instant b then b else a)"

definition recent_file :: "env \<Rightarrow> TriageWindow \<Rightarrow> string \<Rightarrow> string \<Rightarrow> exn + finding list" where
  "recent_file host w recent_path name =
     (let lnk_file = path_join recent_path [name] in
      case path_stat host lnk_file of
        Inl e \<Rightarrow> Inl e
      | Inr stat_info \<Rightarrow>
          (case fromtimestamp_utc (gmtime_ok host) (st_mtime stat_info) of
             Inl e \<Rightarrow> Inl e
           | Inr mod_time \<Rightarrow>
               (case fromtimestamp_utc (gmtime_ok host) (st_ctime stat_info) of
                  Inl e \<Rightarrow> Inl e
                | Inr create_time \<Rightarrow>
                    emit_if_in_window w (Some (dt_max mod_time create_time))
                      (\<lambda>d. make_finding d ''File Access'' ''Recent Folder'' (PyStr name)
                         (''Target: '' @ extract_lnk_target host lnk_file)))))"

definition parse_recent_files :: "env \<Rightarrow> TriageWindow \<Rightarrow> exn + finding list" where
  "parse_recent_files host w =
     (case getenv host ''APPDATA'' of
        None \<Rightarrow> Inr []
      | Some appdata_path \<Rightarrow>
          if appdata_path = [] then Inr []
          else (let recent_path = path_join appdata_path [''Microsoft'', ''Windows'', ''Recent'']
                in case path_exists host recent_path of
                     Inl e \<Rightarrow> Inr []
                   | Inr False \<Rightarrow> Inr []
                   | Inr True \<Rightarrow>
                       (case path_glob host recent_path ''*.lnk'' of
                          Inl e \<Rightarrow> Inr []
                        | Inr names \<Rightarrow>
                            Inr (fst (for_each (append_step (recent_file host w recent_path))
                                       (on_OSError Continue) names [])))))"

definition recentdocs_base_path :: string where
  "recentdocs_base_path = path_join ''Software''
     [''Microsoft'', ''Windows'', ''CurrentVersion'', ''Explorer'', ''RecentDocs'']"

definition recentdocs_value ::
  "env \<Rightarrow> datetime \<Rightarrow> string \<Rightarrow> string \<times> regval \<Rightarrow> exn + finding list" where
  "recentdocs_value host key_modified extension nv =
     (case snd nv of
        RegBinary val_data \<Rightarrow>
          if fst nv \<noteq> ''MRUListEx'' then
            (let filename = rstrip_chars [NUL] (decode_utf16le host val_data) in
             if filename \<noteq> []
             then Inr [make_finding key_modified ''File Access'' ''RecentDocs'' (PyStr filename)
                        (''Extension: .'' @ extension)]
             else Inr [])
          else Inr []
      | _ \<Rightarrow> Inr [])"

definition recentdocs_extension ::
  "env \<Rightarrow> datetime \<Rightarrow> string \<Rightarrow> finding list \<Rightarrow> finding list \<times> exn option" where
  "recentdocs_extension host key_modified extension findings =
     (case OpenKey host HKEY_CURRENT_USER (path_join recentdocs_base_path [extension]) of
        Inl e \<Rightarrow> (findings, Some e)
      | Inr ext_key \<Rightarrow>
          for_each (append_step (recentdocs_value host key_modified extension))
            (on_OSError Break) (key_values ext_key) findings)"

definition parse_recentdocs :: "env \<Rightarrow> TriageWindow \<Rightarrow> exn + finding list" where
  "parse_recentdocs host w =
     (case OpenKey host HKEY_CURRENT_USER recentdocs_base_path of
        Inl e \<Rightarrow> Inr []
      | Inr key \<Rightarrow>
          (case key_info key of
             Inl e \<Rightarrow> Inr []
           | Inr last_modified \<Rightarrow>
               (case filetime_to_datetime (Some last_modified) of
                  Inl e \<Rightarrow> Inr []
                | Inr None \<Rightarrow> Inr []
                | Inr (Some key_modified) \<Rightarrow>
                    (case is_within_window w (Some key_modified) of
                       Inl e \<Rightarrow> Inr []
                     | Inr False \<Rightarrow> Inr []
                     | Inr True \<Rightarrow>
                         Inr (fst (for_each (recentdocs_extension host key_modified)
                                    (on_OSError Break) (key_subkeys key) []))))))"


section \<open>collectors/hardware.py\<close>

definition usbstor_base_path :: string where
  "usbstor_base_path = path_join ''SYSTEM'' [''CurrentControlSet'', ''Enum'', ''USBSTOR'']"

definition get_device_install_time :: "env \<Rightarrow> string \<Rightarrow> exn + datetime option" where
  "get_device_install_time host instance_path =
     (let properties_path = path_join instance_path
            [''Properties'', ''{83da6326-97a6-4088-9453-a1923f573b29}'', ''0065''];
          body =
            (case OpenKey host HKEY_LOCAL_MACHINE properties_path of
               Inl e \<Rightarrow> Inl e
             | Inr prop_key \<Rightarrow>
                 (case key_query prop_key [] of
                    Inl e \<Rightarrow> Inl e
                  | Inr (RegBinary data) \<Rightarrow>
                      if 8 \<le> length data
                      then filetime_to_datetime (Some (le_uint (take 8 data)))
                      else Inr None
                  | Inr _ \<Rightarrow> Inr None))
      in case body of
           Inl e \<Rightarrow> if is_OSError e then Inr None else Inl e
         | Inr r \<Rightarrow> Inr r)"

definition usb_friendly_name :: "regkey \<Rightarrow> exn + pyval" where
  "usb_friendly_name instance_key =
     (case key_query instance_key ''FriendlyName'' of
        Inr v \<Rightarrow> Inr (pyval_of_regval v)
      | Inl e \<Rightarrow>
          if e = FileNotFoundError then
            (case key_query instance_key ''DeviceDesc'' of
               Inr v \<Rightarrow> Inr (pyval_of_regval v)
             | Inl e' \<Rightarrow> if e' = FileNotFoundError then Inr (PyStr ''Unknown Device'') else Inl e')
          else Inl e)"

definition usb_instance ::
  "env \<Rightarrow> TriageWindow \<Rightarrow> string \<Rightarrow> string \<Rightarrow> exn + finding list" where
  "usb_instance host w device_path instance_id =
     (let instance_path = path_join device_path [instance_id] in
      case OpenKey host HKEY_LOCAL_MACHINE instance_path of
        Inl e \<Rightarrow> Inl e
      | Inr instance_key \<Rightarrow>
          (case usb_friendly_name instance_key of
             Inl e \<Rightarrow> Inl e
           | Inr friendly_name \<Rightarrow>
               (case get_device_install_time host instance_path of
                  Inl e \<Rightarrow> Inl e
                | Inr install_time \<Rightarrow>
                    emit_if_in_window w install_time
                      (\<lambda>d. make_finding d ''Hardware'' ''USB Device'' friendly_name
                         (''Instance: '' @ instance_id)))))"

definition usb_device ::
  "env \<Rightarrow> TriageWindow \<Rightarrow> string \<Rightarrow> finding list \<Rightarrow> finding list \<times> exn option" where
  "usb_device host w device_id findings =
     (let device_path = path_join usbstor_base_path [device_id] in
      case OpenKey host HKEY_LOCAL_MACHINE device_path of
        Inl e \<Rightarrow> (findings, Some e)
      | Inr device_key \<Rightarrow>
          for_each (append_step (usb_instance host w device_path)) (on_OSError Break)
            (key_subkeys device_key) findings)"

definition parse_usb_devices :: "env \<Rightarrow> TriageWindow \<Rightarrow> exn + finding list" where
  "parse_usb_devices host w =
     (case OpenKey host HKEY_LOCAL_MACHINE usbstor_base_path of
        Inl e \<Rightarrow> Inr []
      | Inr usbstor_key \<Rightarrow>
          Inr (fst (for_each (usb_device host w) (on_OSError Break)
                     (key_subkeys usbstor_key) [])))"

section \<open>collectors/commands.py\<close>

definition powershell_history_path :: "string \<Rightarrow> string" where
  "powershell_history_path appdata_path = path_join appdata_path
     [''Microsoft'', ''Windows'', ''PowerShell'', ''PSReadLine'', ''ConsoleHost_history.txt'']"

text \<open>\<open>commands[-5:]\<close>\<close>

definition last5 :: "'a list \<Rightarrow> 'a list" where
  "last5 xs = drop (length xs - 5) xs"

definition parse_powershell_history :: "env \<Rightarrow> TriageWindow \<Rightarrow> exn + finding list" where
  "parse_powershell_history host w =
     (case getenv host ''APPDATA'' of
        None \<Rightarrow> Inr []
      | Some appdata_path \<Rightarrow>
          if appdata_path = [] then Inr []
          else (let history_path = powershell_history_path appdata_path in
                case path_exists host history_path of
                  Inl e \<Rightarrow> Inr []
                | Inr False \<Rightarrow> Inr []
                | Inr True \<Rightarrow>
                    (case path_stat host history_path of
                       Inl e \<Rightarrow> Inr []
                     | Inr stat_info \<Rightarrow>
                         (case fromtimestamp_utc (gmtime_ok host) (st_mtime stat_info) of
                            Inl e \<Rightarrow> Inr []
                          | Inr mod_time \<Rightarrow>
                              (case is_within_window w (Some mod_time) of
                                 Inl e \<Rightarrow> Inr []
                               | Inr False \<Rightarrow> Inr []
                               | Inr True \<Rightarrow>
                                   (case read_lines host history_path of
                                      Inl e \<Rightarrow> Inr []
                                    | Inr lines \<Rightarrow>
                                        (let commands =
                                               map (rstrip_chars [CHR 0x0A, CHR 0x0D])
                                                 (filter strip_nonempty lines)
                                         in if commands \<noteq> [] then
                                              Inr [make_finding mod_time ''Command Line''
                                                     ''PowerShell''
                                                     (PyStr (''History file modified (''
                                                        @ str_int (int (length commands))
                                                        @ '' commands)''))
                                                     (''Last 5 commands: ''
                                                        @ join_sep ''; '' (last5 commands))]
                                            else Inr [])))))))"

definition runmru_path :: string where
  "runmru_path = path_join ''Software''
     [''Microsoft'', ''Windows'', ''CurrentVersion'', ''Explorer'', ''RunMRU'']"

text \<open>
  \<open>val_data.rstrip('\\1')\<close>: on a string it removes every trailing backslash and
  \<open>1\<close>; bytes refuse a \<open>str\<close> argument (\<open>TypeError\<close>); an integer and a list have
  no \<open>rstrip\<close> (\<open>AttributeError\<close>).
\<close>

definition runmru_rstrip :: "regval \<Rightarrow> exn + string" where
  "runmru_rstrip val_data =
     (case val_data of
        RegSz s \<Rightarrow> Inr (rstrip_chars [BACKSLASH, CHR ''1''] s)
      | RegBinary b \<Rightarrow> Inl TypeError
      | _ \<Rightarrow> Inl AttributeError)"

definition runmru_value :: "datetime \<Rightarrow> string \<times> regval \<Rightarrow> exn + finding list" where
  "runmru_value key_modified nv =
     (let val_name = fst nv; val_data = snd nv in
      if val_name \<noteq> ''MRUList'' \<and> regval_truthy val_data then
        (case runmru_rstrip val_data of
           Inl e \<Rightarrow> Inl e
         | Inr command \<Rightarrow>
             Inr [make_finding key_modified ''Command Line'' ''RunMRU'' (PyStr command)
                    (''Entry: '' @ val_name)])
      else Inr [])"

definition parse_runmru :: "env \<Rightarrow> TriageWindow \<Rightarrow> exn + finding list" where
  "parse_runmru host w =
     (case OpenKey host HKEY_CURRENT_USER runmru_path of
        Inl e \<Rightarrow> Inr []
      | Inr key \<Rightarrow>
          (case key_info key of
             Inl e \<Rightarrow> Inr []
           | Inr last_modified \<Rightarrow>
               (case filetime_to_datetime (Some last_modified) of
                  Inl e \<Rightarrow> Inr []
                | Inr None \<Rightarrow> Inr []
                | Inr (Some key_modified) \<Rightarrow>
                    (case is_within_window w (Some key_modified) of
                       Inl e \<Rightarrow> Inr []
                     | Inr False \<Rightarrow> Inr []
                     | Inr True \<Rightarrow>
                         Inr (fst (for_each (append_step (runmru_value key_modified))
                                    (on_OSError Break) (key_values key) []))))))"

section \<open>collectors/registry.py\<close>

definition typed_paths_path :: string where
  "typed_paths_path = path_join ''Software''
     [''Microsoft'', ''Windows'', ''CurrentVersion'', ''Explorer'', ''TypedPaths'']"

definition typed_paths_value :: "datetime \<Rightarrow> string \<times> regval \<Rightarrow> exn + finding list" where
  "typed_paths_value key_modified nv =
     (let val_name = fst nv; val_data = snd nv in
      if regval_truthy val_data then
        Inr [make_finding key_modified ''Registry'' ''TypedPaths'' (pyval_of_regval val_data)
               (''Entry: '' @ val_name)]
      else Inr [])"

definition parse_typed_paths :: "env \<Rightarrow> TriageWindow \<Rightarrow> exn + finding list" where
  "parse_typed_paths host w =
     (case OpenKey host HKEY_CURRENT_USER typed_paths_path of
        Inl e \<Rightarrow> Inr []
      | Inr key \<Rightarrow>
          (case key_info key of
             Inl e \<Rightarrow> Inr []
           | Inr last_modified \<Rightarrow>
               (case filetime_to_datetime (Some last_modified) of
                  Inl e \<Rightarrow> Inr []
                | Inr None \<Rightarrow> Inr []
                | Inr (Some key_modified) \<Rightarrow>
                    (case is_within_window w (Some key_modified) of
                       Inl e \<Rightarrow> Inr []
                     | Inr False \<Rightarrow> Inr []
                     | Inr True \<Rightarrow>
                         Inr (fst (for_each (append_step (typed_paths_value key_modified))
                                    (on_OSError Break) (key_values key) []))))))"

section \<open>collectors/network.py\<close>

definition str_opt :: "string option \<Rightarrow> string" where
  "str_opt v = (case v of None \<Rightarrow> ''None'' | Some s \<Rightarrow> s)"

definition str_int_opt :: "int option \<Rightarrow> string" where
  "str_int_opt v = (case v of None \<Rightarrow> ''None'' | Some i \<Rightarrow> str_int i)"

text \<open>The \<open>browsers\<close> dict, in its insertion order.\<close>

definition chromium_browsers :: "string \<Rightarrow> (string \<times> string) list" where
  "chromium_browsers localappdata =
     [(''Chrome'',
       path_join localappdata [''Google'', ''Chrome'', ''User Data'', ''Default'', ''History'']),
      (''Edge'',
       path_join localappdata [''Microsoft'', ''Edge'', ''User Data'', ''Default'', ''History''])]"

definition row_title :: "string option \<Rightarrow> string" where
  "row_title t = (case t of None \<Rightarrow> ''No Title'' | Some s \<Rightarrow> if s = [] then ''No Title'' else take 100 s)"

definition chromium_history_row ::
  "TriageWindow \<Rightarrow> string \<Rightarrow> history_row \<Rightarrow> exn + finding list" where
  "chromium_history_row w browser_name row =
     (case visit_time row of
        None \<Rightarrow> Inl TypeError
      | Some vt \<Rightarrow>
          (case chrome_visit_dt vt of
             Inl e \<Rightarrow> Inl e
           | Inr visit_dt \<Rightarrow>
               emit_if_in_window w (Some visit_dt)
                 (\<lambda>d. make_finding d ''Web Activity'' (browser_name @ '' Browser'')
                    (PyStr (row_title (title row))) (''URL: '' @ str_opt (url row)))))"

definition chromium_history ::
  "env \<Rightarrow> TriageWindow \<Rightarrow> string \<times> string \<Rightarrow> finding list \<Rightarrow> finding list \<times> exn option"
where
  "chromium_history host w browser findings =
     (let browser_name = fst browser; history_path = snd browser in
      case path_exists host history_path of
        Inl e \<Rightarrow> (findings, Some e)
      | Inr False \<Rightarrow> (findings, None)
      | Inr True \<Rightarrow>
          (case history_rows host history_path of
             Inl e \<Rightarrow> (findings, Some e)
           | Inr rows \<Rightarrow>
               for_each (append_step (chromium_history_row w browser_name)) (\<lambda>e. Propagate)
                 rows findings))"

definition firefox_row :: "env \<Rightarrow> TriageWindow \<Rightarrow> history_row \<Rightarrow> exn + finding list" where
  "firefox_row host w row =
     (case visit_time row of
        None \<Rightarrow> Inl TypeError
      | Some visit_date \<Rightarrow>
          (case firefox_visit_dt (gmtime_ok host) visit_date of
             Inl e \<Rightarrow> Inl e
           | Inr visit_dt \<Rightarrow>
               emit_if_in_window w (Some visit_dt)
                 (\<lambda>d. make_finding d ''Web Activity'' ''Firefox Browser''
                    (PyStr (row_title (title row))) (''URL: '' @ str_opt (url row)))))"

text \<open>
  The loop over the Firefox profiles: a profile without \<open>places.sqlite\<close> is skipped,
  the first one that has it is read, and the loop ends there (\<open>break\<close>).
\<close>

fun firefox_profiles ::
  "env \<Rightarrow> TriageWindow \<Rightarrow> string list \<Rightarrow> finding list \<Rightarrow> finding list \<times> exn option" where
  "firefox_profiles host w [] findings = (findings, None)"
| "firefox_profiles host w (profile_dir # rest) findings =
     (let places_db = path_join profile_dir [''places.sqlite''] in
      case path_exists host places_db of
        Inl e \<Rightarrow> (findings, Some e)
      | Inr False \<Rightarrow> firefox_profiles host w rest findings
      | Inr True \<Rightarrow>
          (case history_rows host places_db of
             Inl e \<Rightarrow> (findings, Some e)
           | Inr rows \<Rightarrow>
               for_each (append_step (firefox_row host w)) (\<lambda>e. Propagate) rows findings))"

definition firefox_history ::
  "env \<Rightarrow> TriageWindow \<Rightarrow> string \<Rightarrow> finding list \<Rightarrow> finding list \<times> exn option" where
  "firefox_history host w appdata findings =
     (let firefox_profiles_dir = path_join appdata [''Mozilla'', ''Firefox'', ''Profiles''] in
      case path_exists host firefox_profiles_dir of
        Inl e \<Rightarrow> (findings, Some e)
      | Inr False \<Rightarrow> (findings, None)
      | Inr True \<Rightarrow>
          (case path_glob host firefox_profiles_dir ''*.default*'' of
             Inl e \<Rightarrow> (findings, Some e)
           | Inr names \<Rightarrow>
               firefox_profiles host w
                 (map (\<lambda>name. path_join firefox_profiles_dir [name]) names) findings))"

definition parse_browser_history :: "env \<Rightarrow> TriageWindow \<Rightarrow> exn + finding list" where
  "parse_browser_history host w =
     (case (getenv host ''LOCALAPPDATA'', getenv host ''APPDATA'') of
        (Some localappdata, Some appdata) \<Rightarrow>
          if localappdata = [] \<or> appdata = [] then Inr []
          else (let chromium = fst (for_each (chromium_history host w) (\<lambda>e. Continue)
                                      (chromium_browsers localappdata) [])
                in Inr (fst (firefox_history host w appdata chromium)))
      | _ \<Rightarrow> Inr [])"

definition download_row_finding ::
  "env \<Rightarrow> TriageWindow \<Rightarrow> string \<Rightarrow> download_row \<Rightarrow> exn + finding list" where
  "download_row_finding host w browser_name row =
     (case start_time row of
        None \<Rightarrow> Inl TypeError
      | Some st \<Rightarrow>
          (case chrome_visit_dt st of
             Inl e \<Rightarrow> Inl e
           | Inr download_dt \<Rightarrow>
               (case is_within_window w (Some download_dt) of
                  Inl e \<Rightarrow> Inl e
                | Inr False \<Rightarrow> Inr []
                | Inr True \<Rightarrow>
                    (case target_path row of
                       None \<Rightarrow> Inl TypeError
                     | Some tp \<Rightarrow>
                         Inr [make_finding download_dt ''Download'' (browser_name @ '' Browser'')
                                (PyStr (path_name host tp))
                                (''Size: '' @ str_int_opt (total_bytes row) @ '' bytes, Source: ''
                                 @ str_opt (tab_url row))]))))"

definition chromium_downloads ::
  "env \<Rightarrow> TriageWindow \<Rightarrow> string \<times> string \<Rightarrow> finding list \<Rightarrow> finding list \<times> exn option"
where
  "chromium_downloads host w browser findings =
     (let browser_name = fst browser; history_path = snd browser in
      case path_exists host history_path of
        Inl e \<Rightarrow> (findings, Some e)
      | Inr False \<Rightarrow> (findings, None)
      | Inr True \<Rightarrow>
          (case download_rows host history_path of
             Inl e \<Rightarrow> (findings, Some e)
           | Inr rows \<Rightarrow>
               for_each (append_step (download_row_finding host w browser_name))
                 (\<lambda>e. Propagate) rows findings))"

definition parse_downloads :: "env \<Rightarrow> TriageWindow \<Rightarrow> exn + finding list" where
  "parse_downloads host w =
     (case getenv host ''LOCALAPPDATA'' of
        None \<Rightarrow> Inr []
      | Some localappdata \<Rightarrow>
          if localappdata = [] then Inr []
          else Inr (fst (for_each (chromium_downloads host w) (\<lambda>e. Continue)
                          (chromium_browsers localappdata) [])))"

section \<open>tracefinder.py: collection\<close>

text \<open>The list \<open>collectors\<close> of \<open>collect_all_artifacts\<close>, in its order.\<close>

definition collectors :: "env \<Rightarrow> (string \<times> (TriageWindow \<Rightarrow> exn + finding list)) list" where
  "collectors host =
     [(''UserAssist'', parse_userassist host),
      (''Prefetch'', parse_prefetch host),
      (''Recent Files'', parse_recent_files host),
      (''USB Devices'', parse_usb_devices host),
      (''PowerShell History'', parse_powershell_history host),
      (''Browser History'', parse_browser_history host),
      (''Downloads'', parse_downloads host),
      (''RecentDocs'', parse_recentdocs host),
      (''TypedPaths'', parse_typed_paths host),
      (''RunMRU'', parse_runmru host)]"

text \<open>
  What the loop prints, as events: the collector it starts, then the number of entries
  or the error. The loop body calls the collector once; a result that is not empty
  extends \<open>all_findings\<close>; an exception is caught and only printed.
\<close>

datatype event = Collecting string | Entries nat | Failed exn

fun run_collectors ::
  "(string \<times> (TriageWindow \<Rightarrow> exn + finding list)) list \<Rightarrow> TriageWindow
   \<Rightarrow> finding list \<times> event list \<Rightarrow> finding list \<times> event list" where
  "run_collectors [] w st = st"
| "run_collectors (c # rest) w st =
     (let collector_name = fst c; collector_func = snd c;
          all_findings = fst st; out = snd st @ [Collecting collector_name]
      in case collector_func w of
           Inr results \<Rightarrow>
             run_collectors rest w
               (if results \<noteq> [] then all_findings @ results else all_findings,
                out @ [Entries (length results)])
         | Inl e \<Rightarrow> run_collectors rest w (all_findings, out @ [Failed e]))"

definition collect_with ::
  "(string \<times> (TriageWindow \<Rightarrow> exn + finding list)) list \<Rightarrow> TriageWindow \<Rightarrow> finding list" where
  "collect_with cs w = fst (run_collectors cs w ([], []))"

definition collect_all_artifacts :: "env \<Rightarrow> TriageWindow \<Rightarrow> finding list" where
  "collect_all_artifacts host w = collect_with (collectors host) w"

text \<open>
  What a collector adds to the result, and the collectors the printed events show as
  started, for the statements below.
\<close>

definition contribution ::
  "TriageWindow \<Rightarrow> string \<times> (TriageWindow \<Rightarrow> exn + finding list) \<Rightarrow> finding list" where
  "contribution w c = (case snd c w of Inl e \<Rightarrow> [] | Inr results \<Rightarrow> results)"

fun started :: "event list \<Rightarrow> string list" where
  "started [] = []"
| "started (Collecting n # out) = n # started out"
| "started (_ # out) = started out"

section \<open>reporters/csv\_exporter.py: one row\<close>

text \<open>
  The cells \<open>export_to_csv\<close> writes for one finding, in the order of \<open>fieldnames\<close>. The
  UTC column is \<open>finding['timestamp']\<close> as it stands. The local column is
  \<open>finding['timestamp_dt'].astimezone()\<close> formatted, or \<open>Conversion Error\<close> when that
  raises; \<open>local_offset\<close> is the local zone's offset from UTC in microseconds.
\<close>

definition dict_item :: "finding \<Rightarrow> string \<Rightarrow> exn + pyval" where
  "dict_item d k = (case map_of d k of None \<Rightarrow> Inl KeyError | Some v \<Rightarrow> Inr v)"

definition csv_local_timestamp :: "int \<Rightarrow> finding \<Rightarrow> string" where
  "csv_local_timestamp local_offset finding =
     (case map_of finding ''timestamp_dt'' of
        Some (PyDatetime utc_dt) \<Rightarrow>
          (let local_wall =
                 (case tzinfo utc_dt of
                    None \<Rightarrow> wall utc_dt
                  | Some off \<Rightarrow> wall utc_dt - off + local_offset)
           in if 0 \<le> local_wall \<and> local_wall \<le> DATETIME_MAX
              then strftime_seconds \<lparr>wall = local_wall, tzinfo = Some local_offset\<rparr>
              else ''Conversion Error'')
      | _ \<Rightarrow> ''Conversion Error'')"

definition csv_row :: "int \<Rightarrow> finding \<Rightarrow> exn + pyval list" where
  "csv_row local_offset finding =
     (let local_timestamp = csv_local_timestamp local_offset finding in
      case dict_item finding ''timestamp'' of
        Inl e \<Rightarrow> Inl e
      | Inr ts \<Rightarrow>
          (case dict_item finding ''artifact_type'' of
             Inl e \<Rightarrow> Inl e
           | Inr artifact_type \<Rightarrow>
               (case dict_item finding ''source'' of
                  Inl e \<Rightarrow> Inl e
                | Inr source \<Rightarrow>
                    (case dict_item finding ''description'' of
                       Inl e \<Rightarrow> Inl e
                     | Inr description \<Rightarrow>
                         (case dict_item finding ''details'' of
                            Inl e \<Rightarrow> Inl e
                          | Inr details \<Rightarrow>
                              Inr [ts, PyStr local_timestamp, artifact_type, source,
                                   description, details])))))"

text \<open>
  What the claims say of an emitted finding: its \<open>timestamp_dt\<close> is a datetime inside
  the window, and its \<open>timestamp\<close> is that datetime formatted.
\<close>

definition in_window_stamp :: "TriageWindow \<Rightarrow> finding \<Rightarrow> bool" where
  "in_window_stamp w f =
     (case map_of f ''timestamp_dt'' of
        Some (PyDatetime d) \<Rightarrow> is_within_window w (Some d) = Inr True
      | _ \<Rightarrow> False)"

definition consistent_stamp :: "finding \<Rightarrow> bool" where
  "consistent_stamp f =
     (case map_of f ''timestamp_dt'' of
        Some (PyDatetime d) \<Rightarrow> map_of f ''timestamp'' = Some (PyStr (strftime_utc d))
      | _ \<Rightarrow> False)"

definition emitted_ok :: "TriageWindow \<Rightarrow> finding \<Rightarrow> bool" where
  "emitted_ok w f = (in_window_stamp w f \<and> consistent_stamp f)"

section \<open>Example hosts\<close>

text \<open>
  A host on which nothing is there: no environment variable, no registry key, no file.
  The examples below add to it. The window of the examples ends at
  63900000000 seconds after 0001-01-01T00:00:00Z and is 180 minutes long.
\<close>

definition bare_host :: env where
  "bare_host =
     \<lparr>getenv = (\<lambda>name. None),
      OpenKey = (\<lambda>h p. Inl FileNotFoundError),
      path_exists = (\<lambda>p. Inr False),
      path_glob = (\<lambda>p pat. Inr []),
      path_stat = (\<lambda>p. Inl FileNotFoundError),
      read_bytes = (\<lambda>p. Inl FileNotFoundError),
      read_lines = (\<lambda>p. Inl FileNotFoundError),
      history_rows = (\<lambda>p. Inl DatabaseError),
      download_rows = (\<lambda>p. Inl DatabaseError),
      gmtime_ok = gmtime_ok_windows,
      path_name = (\<lambda>p. p),
      decode_utf16le = (\<lambda>b. b)\<rparr>"

definition example_window :: TriageWindow where
  "example_window =
     \<lparr>window_minutes = 180, current_time = utc 63900000000000000,
      cutoff_time = utc 63899989200000000\<rparr>"

definition example_key :: "(string \<times> regval) list \<Rightarrow> regkey" where
  "example_key vals =
     \<lparr>key_info = Inr 134088718000000000, key_values = vals, key_subkeys = [],
      key_query = (\<lambda>name. Inl FileNotFoundError)\<rparr>"

definition tool_command :: string where
  "tool_command = ''C:'' @ [BACKSLASH] @ ''tool.exe''"

text \<open>
  A UserAssist value of 72 bytes: run count 3, focus time 1500, last run at the
  FILETIME of the example key; and one that is too short.
\<close>

definition userassist_bytes :: string where
  "userassist_bytes =
     replicate 4 NUL @ [CHR 0x03, NUL, NUL, NUL] @ [CHR 0xDC, CHR 0x05, NUL, NUL]
     @ replicate 48 NUL
     @ [CHR 0x00, CHR 0x0C, CHR 0xC7, CHR 0x84, CHR 0xFA, CHR 0x60, CHR 0xDC, CHR 0x01]
     @ replicate 4 NUL"

definition userassist_example_values :: "(string \<times> regval) list" where
  "userassist_example_values =
     [(''fubeg.rkr'', RegBinary (replicate 16 NUL)), (''pnyp.rkr'', RegBinary userassist_bytes)]"

text \<open>
  A UserAssist value of 72 bytes with run count 3 and focus time 1500 whose last-run
  FILETIME is 0: the program was never run.
\<close>

definition userassist_never_run :: string where
  "userassist_never_run =
     replicate 4 NUL @ [CHR 0x03, NUL, NUL, NUL] @ [CHR 0xDC, CHR 0x05, NUL, NUL]
     @ replicate 60 NUL"

definition host_with_key :: "hive \<Rightarrow> string \<Rightarrow> regkey \<Rightarrow> env" where
  "host_with_key h p k =
     bare_host\<lparr>OpenKey := (\<lambda>h' p'. if h' = h \<and> p' = p then Inr k else Inl FileNotFoundError)\<rparr>"

section \<open>Properties: the time window predicate\<close>

lemma TriageWindow_init_aware:
  assumes "TriageWindow_init now minutes = Inr w"
  shows "tzinfo (cutoff_time w) = Some 0 \<and> tzinfo (current_time w) = Some 0"
  using assms
  by (auto simp: TriageWindow_init_def dt_sub_def dt_add_def utc_def Let_def
      split: sum.splits if_splits)

lemma TriageWindow_init_cutoff:
  assumes "TriageWindow_init now minutes = Inr w"
  shows "instant (current_time w) = now \<and> instant (cutoff_time w) = now - minutes * 60000000"
  using assms
  by (auto simp: TriageWindow_init_def dt_sub_def dt_add_def utc_def Let_def instant_def
      timedelta_new_def split: sum.splits if_splits)

text \<open>
  C3. For a window whose two bounds are aware (every window the constructor builds):
  \<open>None\<close> is outside; a naive timestamp is read as UTC; and a timestamp is inside
  exactly when \<open>cutoff_time \<le> t \<le> current_time\<close> as instants, both bounds included.
\<close>

theorem is_within_window_inclusive:
  assumes "tzinfo (cutoff_time w) \<noteq> None" and "tzinfo (current_time w) \<noteq> None"
  shows "is_within_window w None = Inr False
    \<and> (tzinfo t = None \<longrightarrow>
          is_within_window w (Some t) = is_within_window w (Some (t\<lparr>tzinfo := Some 0\<rparr>))
          \<and> instant t = instant (t\<lparr>tzinfo := Some 0\<rparr>))
    \<and> is_within_window w (Some t) =
          Inr (instant (cutoff_time w) \<le> instant t \<and> instant t \<le> instant (current_time w))
    \<and> (instant t = instant (cutoff_time w) \<and> instant t \<le> instant (current_time w) \<longrightarrow>
          is_within_window w (Some t) = Inr True)
    \<and> (instant t = instant (current_time w) \<and> instant (cutoff_time w) \<le> instant t \<longrightarrow>
          is_within_window w (Some t) = Inr True)"
proof -
  have none: "is_within_window w None = Inr False"
    by (simp add: is_within_window_def)
  have naive: "tzinfo t = None \<Longrightarrow>
      is_within_window w (Some t) = is_within_window w (Some (t\<lparr>tzinfo := Some 0\<rparr>))
      \<and> instant t = instant (t\<lparr>tzinfo := Some 0\<rparr>)"
    by (simp add: is_within_window_def instant_def)
  have iff: "is_within_window w (Some t) =
      Inr (instant (cutoff_time w) \<le> instant t \<and> instant t \<le> instant (current_time w))"
    using assms
    by (cases "tzinfo t")
      (auto simp: is_within_window_def dt_le_def instant_def Let_def split: sum.splits bool.splits)
  have edges: "instant t = instant (cutoff_time w) \<and> instant t \<le> instant (current_time w)
      \<Longrightarrow> is_within_window w (Some t) = Inr True"
    "instant t = instant (current_time w) \<and> instant (cutoff_time w) \<le> instant t
      \<Longrightarrow> is_within_window w (Some t) = Inr True"
    by (simp_all add: iff)
  from none naive iff edges show ?thesis
    by blast
qed

theorem is_within_window_inclusive_witness:
  "\<exists>w. TriageWindow_init 63900000000000000 180 = Inr w
     \<and> tzinfo (cutoff_time w) \<noteq> None \<and> tzinfo (current_time w) \<noteq> None
     \<and> is_within_window w None = Inr False
     \<and> is_within_window w (Some \<lparr>wall = 63899989200000000, tzinfo = None\<rparr>) = Inr True
     \<and> is_within_window w (Some (utc 63899989200000000)) = Inr True
     \<and> is_within_window w (Some (utc 63900000000000000)) = Inr True
     \<and> is_within_window w (Some (utc 63899989199999999)) = Inr False
     \<and> is_within_window w (Some (utc 63900000000000001)) = Inr False"
proof -
  define w where "w = \<lparr>window_minutes = 180, current_time = utc 63900000000000000,
    cutoff_time = utc 63899989200000000\<rparr>"
  have init: "TriageWindow_init 63900000000000000 180 = Inr w"
    by (simp add: TriageWindow_init_def timedelta_new_def dt_sub_def dt_add_def utc_def
        US_PER_DAY_def DATETIME_MAX_def Let_def w_def)
  have aware: "tzinfo (cutoff_time w) \<noteq> None" "tzinfo (current_time w) \<noteq> None"
    by (simp_all add: w_def utc_def)
  have i: "instant (cutoff_time w) = 63899989200000000" "instant (current_time w) = 63900000000000000"
    by (simp_all add: w_def utc_def instant_def)
  show ?thesis
    using init aware i
      is_within_window_inclusive [OF aware, of "\<lparr>wall = 63899989200000000, tzinfo = None\<rparr>"]
      is_within_window_inclusive [OF aware, of "utc 63899989200000000"]
      is_within_window_inclusive [OF aware, of "utc 63900000000000000"]
      is_within_window_inclusive [OF aware, of "utc 63899989199999999"]
      is_within_window_inclusive [OF aware, of "utc 63900000000000001"]
    by (simp add: utc_def instant_def)
qed

section \<open>Properties: sorting\<close>

lemma py_lt_aware:
  "aware_key x \<Longrightarrow> aware_key y \<Longrightarrow>
   py_lt (sort_key_of x) (sort_key_of y) = Inr (finding_instant x < finding_instant y)"
  by (auto simp: aware_key_def finding_instant_def dt_lt_def split: pyval.splits)

lemma py_insort_aware:
  "aware_key x \<Longrightarrow> \<forall>y\<in>set ys. aware_key y \<Longrightarrow>
   py_insort sort_key_of x ys = Inr (insort_after finding_instant x ys)"
  by (induction ys) (auto simp: py_lt_aware)

lemma set_insort_after: "set (insort_after k x ys) = insert x (set ys)"
  by (induction ys) auto

lemma py_sort_from_aware:
  "\<forall>y\<in>set acc. aware_key y \<Longrightarrow> \<forall>y\<in>set xs. aware_key y \<Longrightarrow>
   py_sort_from sort_key_of acc xs = Inr (sort_from finding_instant acc xs)"
  by (induction xs arbitrary: acc) (auto simp: py_insort_aware set_insort_after)

lemma mset_insort_after: "mset (insort_after k x ys) = add_mset x (mset ys)"
  by (induction ys) auto

lemma mset_sort_from: "mset (sort_from k acc xs) = mset acc + mset xs"
  by (induction xs arbitrary: acc) (auto simp: mset_insort_after)

lemma sorted_insort_after:
  "sorted (map k ys) \<Longrightarrow> sorted (map k (insort_after k x ys))"
  by (induction ys) (auto simp: set_insort_after)

lemma sorted_sort_from:
  "sorted (map k acc) \<Longrightarrow> sorted (map k (sort_from k acc xs))"
  by (induction xs arbitrary: acc) (auto simp: sorted_insort_after)

lemma filter_insort_after:
  "sorted (map k ys) \<Longrightarrow>
   filter (\<lambda>z. k z = t) (insort_after k x ys) =
   filter (\<lambda>z. k z = t) ys @ (if k x = t then [x] else [])"
proof (induction ys)
  case Nil
  then show ?case by simp
next
  case (Cons y ys)
  show ?case
  proof (cases "k x < k y")
    case True
    have "\<forall>z\<in>set (y # ys). k x < k z"
      using Cons.prems True by auto
    then have "k x = t \<Longrightarrow> filter (\<lambda>z. k z = t) (y # ys) = []"
      by (auto simp: filter_empty_conv)
    with True show ?thesis by auto
  next
    case False
    with Cons show ?thesis by auto
  qed
qed

lemma filter_sort_from:
  "sorted (map k acc) \<Longrightarrow>
   filter (\<lambda>z. k z = t) (sort_from k acc xs) =
   filter (\<lambda>z. k z = t) acc @ filter (\<lambda>z. k z = t) xs"
  by (induction xs arbitrary: acc) (auto simp: filter_insort_after sorted_insort_after)

lemma py_insort_mset:
  "py_insort key x ys = Inr r \<Longrightarrow> mset r = add_mset x (mset ys)"
  by (induction ys arbitrary: r) (auto split: sum.splits bool.splits)

lemma py_sort_from_mset:
  "py_sort_from key acc xs = Inr r \<Longrightarrow> mset r = mset acc + mset xs"
  by (induction xs arbitrary: acc r) (auto split: sum.splits dest: py_insort_mset)

text \<open>When every key is an aware datetime the sort succeeds, with this result.\<close>

lemma sort_findings_aware:
  assumes "\<forall>f\<in>set findings. aware_key f"
  shows "py_sorted findings sort_key_of True =
           Inr (rev (sort_from finding_instant [] (rev findings)))"
    and "sort_findings_by_timestamp findings =
           rev (sort_from finding_instant [] (rev findings))"
proof -
  have "py_sort_from sort_key_of [] (rev findings) =
      Inr (sort_from finding_instant [] (rev findings))"
    using assms by (intro py_sort_from_aware) auto
  then show "py_sorted findings sort_key_of True =
      Inr (rev (sort_from finding_instant [] (rev findings)))"
    by (simp add: py_sorted_def)
  then show "sort_findings_by_timestamp findings =
      rev (sort_from finding_instant [] (rev findings))"
    by (simp add: sort_findings_by_timestamp_def)
qed

lemma rev_sort_from_descending:
  "sorted_wrt (\<lambda>a b. k b \<le> k a) (rev (sort_from k [] xs))"
proof -
  have "sorted (map k (sort_from k [] xs))"
    by (rule sorted_sort_from) simp
  then have "sorted_wrt (\<lambda>a b. k a \<le> k b) (sort_from k [] xs)"
    by (simp add: sorted_map)
  then show ?thesis
    by (simp add: sorted_wrt_rev)
qed

lemma rev_sort_from_stable:
  "filter (\<lambda>z. k z = t) (rev (sort_from k [] (rev xs))) = filter (\<lambda>z. k z = t) xs"
proof -
  have "filter (\<lambda>z. k z = t) (sort_from k [] (rev xs)) = filter (\<lambda>z. k z = t) (rev xs)"
    using filter_sort_from [of k "[]" t "rev xs"] by simp
  then have "rev (filter (\<lambda>z. k z = t) (sort_from k [] (rev xs))) =
      rev (filter (\<lambda>z. k z = t) (rev xs))"
    by simp
  then show ?thesis
    by (simp add: rev_filter)
qed

lemma aware_key_present:
  "map_of f ''timestamp_dt'' = Some (PyDatetime d) \<Longrightarrow> tzinfo d \<noteq> None \<Longrightarrow> aware_key f"
  by (simp add: aware_key_def sort_key_of_def dict_get_def)

lemma aware_key_absent: "map_of f ''timestamp_dt'' = None \<Longrightarrow> aware_key f"
  by (simp add: aware_key_def sort_key_of_def dict_get_def utc_def)

text \<open>
  C7. On findings that carry a normalized (aware) timestamp, the sort returns a
  permutation of its input that is descending on the timestamp's instant, and the
  findings of every one instant stand in their input order.
\<close>

theorem sort_findings_stable_descending:
  assumes "\<forall>f\<in>set findings. \<exists>d. map_of f ''timestamp_dt'' = Some (PyDatetime d) \<and> tzinfo d \<noteq> None"
  shows "mset (sort_findings_by_timestamp findings) = mset findings
    \<and> sorted_wrt (\<lambda>a b. finding_instant b \<le> finding_instant a)
        (sort_findings_by_timestamp findings)
    \<and> (\<forall>t. filter (\<lambda>f. finding_instant f = t) (sort_findings_by_timestamp findings) =
            filter (\<lambda>f. finding_instant f = t) findings)"
proof -
  have aware: "\<forall>f\<in>set findings. aware_key f"
    using assms aware_key_present by blast
  have eq: "sort_findings_by_timestamp findings =
      rev (sort_from finding_instant [] (rev findings))"
    by (rule sort_findings_aware(2) [OF aware])
  have "mset (rev (sort_from finding_instant [] (rev findings))) = mset findings"
    by (simp add: mset_sort_from)
  moreover have "sorted_wrt (\<lambda>a b. finding_instant b \<le> finding_instant a)
      (rev (sort_from finding_instant [] (rev findings)))"
    by (rule rev_sort_from_descending)
  moreover have "\<forall>t. filter (\<lambda>f. finding_instant f = t)
      (rev (sort_from finding_instant [] (rev findings))) =
      filter (\<lambda>f. finding_instant f = t) findings"
    by (simp add: rev_sort_from_stable)
  ultimately show ?thesis
    unfolding eq by blast
qed


theorem sort_findings_stable_descending_witness:
  "sort_findings_by_timestamp
     [[(''timestamp_dt'', PyDatetime (utc 20)), (''description'', PyStr ''first t2'')],
      [(''timestamp_dt'', PyDatetime (utc 10)), (''description'', PyStr ''t3'')],
      [(''timestamp_dt'', PyDatetime (utc 30)), (''description'', PyStr ''t1'')],
      [(''timestamp_dt'', PyDatetime (utc 20)), (''description'', PyStr ''second t2'')]] =
     [[(''timestamp_dt'', PyDatetime (utc 30)), (''description'', PyStr ''t1'')],
      [(''timestamp_dt'', PyDatetime (utc 20)), (''description'', PyStr ''first t2'')],
      [(''timestamp_dt'', PyDatetime (utc 20)), (''description'', PyStr ''second t2'')],
      [(''timestamp_dt'', PyDatetime (utc 10)), (''description'', PyStr ''t3'')]]
   \<and> sorted_wrt (\<lambda>a b. finding_instant b \<le> finding_instant a)
       [[(''timestamp_dt'', PyDatetime (utc 30)), (''description'', PyStr ''t1'')],
        [(''timestamp_dt'', PyDatetime (utc 20)), (''description'', PyStr ''first t2'')],
        [(''timestamp_dt'', PyDatetime (utc 20)), (''description'', PyStr ''second t2'')],
        [(''timestamp_dt'', PyDatetime (utc 10)), (''description'', PyStr ''t3'')]]"
proof -
  define fs where "fs =
     [[(''timestamp_dt'', PyDatetime (utc 20)), (''description'', PyStr ''first t2'')],
      [(''timestamp_dt'', PyDatetime (utc 10)), (''description'', PyStr ''t3'')],
      [(''timestamp_dt'', PyDatetime (utc 30)), (''description'', PyStr ''t1'')],
      [(''timestamp_dt'', PyDatetime (utc 20)), (''description'', PyStr ''second t2'')]]"
  have hyp: "\<forall>f\<in>set fs. \<exists>d. map_of f ''timestamp_dt'' = Some (PyDatetime d) \<and> tzinfo d \<noteq> None"
    by (simp add: fs_def utc_def)
  have ev: "sort_findings_by_timestamp fs =
     [[(''timestamp_dt'', PyDatetime (utc 30)), (''description'', PyStr ''t1'')],
      [(''timestamp_dt'', PyDatetime (utc 20)), (''description'', PyStr ''first t2'')],
      [(''timestamp_dt'', PyDatetime (utc 20)), (''description'', PyStr ''second t2'')],
      [(''timestamp_dt'', PyDatetime (utc 10)), (''description'', PyStr ''t3'')]]"
    by (simp add: fs_def sort_findings_by_timestamp_def py_sorted_def sort_key_of_def
        dict_get_def dt_lt_def instant_def utc_def)
  from sort_findings_stable_descending [OF hyp] ev show ?thesis
    unfolding fs_def by simp
qed

text \<open>
  C10, as the code has it. The sort never loses or adds a finding; when a comparison
  raises, the input comes back unchanged; a finding without \<open>timestamp_dt\<close> is sorted
  by \<open>datetime.min\<close> in UTC. When every finding either lacks the key or carries an aware
  datetime the sort succeeds, the output is descending, and a finding without the key
  stands behind every finding whose timestamp is later than \<open>datetime.min\<close> in UTC.
\<close>

theorem sort_findings_missing_key:
  "mset (sort_findings_by_timestamp findings) = mset findings
   \<and> (\<forall>e. py_sorted findings sort_key_of True = Inl e \<longrightarrow>
         sort_findings_by_timestamp findings = findings)
   \<and> (\<forall>f. map_of f ''timestamp_dt'' = None \<longrightarrow> sort_key_of f = PyDatetime (utc 0))
   \<and> ((\<forall>f\<in>set findings. map_of f ''timestamp_dt'' = None \<or>
          (\<exists>d. map_of f ''timestamp_dt'' = Some (PyDatetime d) \<and> tzinfo d \<noteq> None)) \<longrightarrow>
        (\<exists>r. py_sorted findings sort_key_of True = Inr r)
        \<and> sorted_wrt (\<lambda>a b. finding_instant b \<le> finding_instant a)
            (sort_findings_by_timestamp findings)
        \<and> (\<forall>i j. i < length findings \<and> j < length findings
              \<and> map_of (sort_findings_by_timestamp findings ! i) ''timestamp_dt'' = None
              \<and> 0 < finding_instant (sort_findings_by_timestamp findings ! j) \<longrightarrow> j < i))"
proof -
  have perm: "mset (sort_findings_by_timestamp findings) = mset findings"
  proof (cases "py_sorted findings sort_key_of True")
    case (Inl e)
    then show ?thesis by (simp add: sort_findings_by_timestamp_def)
  next
    case (Inr r)
    then obtain r' where r': "py_sort_from sort_key_of [] (rev findings) = Inr r'" "r = rev r'"
      by (auto simp: py_sorted_def split: sum.splits)
    from py_sort_from_mset [OF r'(1)] r'(2) Inr show ?thesis
      by (simp add: sort_findings_by_timestamp_def)
  qed
  have unchanged: "\<forall>e. py_sorted findings sort_key_of True = Inl e \<longrightarrow>
      sort_findings_by_timestamp findings = findings"
    by (simp add: sort_findings_by_timestamp_def)
  have dflt: "\<forall>f. map_of f ''timestamp_dt'' = None \<longrightarrow> sort_key_of f = PyDatetime (utc 0)"
    by (simp add: sort_key_of_def dict_get_def)
  have ok: "(\<exists>r. py_sorted findings sort_key_of True = Inr r)
      \<and> sorted_wrt (\<lambda>a b. finding_instant b \<le> finding_instant a)
          (sort_findings_by_timestamp findings)
      \<and> (\<forall>i j. i < length findings \<and> j < length findings
            \<and> map_of (sort_findings_by_timestamp findings ! i) ''timestamp_dt'' = None
            \<and> 0 < finding_instant (sort_findings_by_timestamp findings ! j) \<longrightarrow> j < i)"
    if h: "\<forall>f\<in>set findings. map_of f ''timestamp_dt'' = None \<or>
          (\<exists>d. map_of f ''timestamp_dt'' = Some (PyDatetime d) \<and> tzinfo d \<noteq> None)"
  proof -
    have aware: "\<forall>f\<in>set findings. aware_key f"
      using h aware_key_present aware_key_absent by blast
    let ?rs = "sort_findings_by_timestamp findings"
    have eq: "?rs = rev (sort_from finding_instant [] (rev findings))"
      by (rule sort_findings_aware(2) [OF aware])
    have desc: "sorted_wrt (\<lambda>a b. finding_instant b \<le> finding_instant a) ?rs"
      unfolding eq by (rule rev_sort_from_descending)
    have len: "length ?rs = length findings"
      using perm by (metis size_mset)
    have behind: "j < i"
      if ij: "i < length findings" "j < length findings"
        and none: "map_of (?rs ! i) ''timestamp_dt'' = None"
        and pos: "0 < finding_instant (?rs ! j)"
      for i j
    proof (rule ccontr)
      assume "\<not> j < i"
      have zero: "finding_instant (?rs ! i) = 0"
        using none by (simp add: finding_instant_def sort_key_of_def dict_get_def utc_def instant_def)
      with pos have "i \<noteq> j" by auto
      with \<open>\<not> j < i\<close> have "i < j" by simp
      with desc ij len have "finding_instant (?rs ! j) \<le> finding_instant (?rs ! i)"
        by (simp add: sorted_wrt_iff_nth_less)
      with zero pos show False by simp
    qed
    from sort_findings_aware(1) [OF aware] desc behind show ?thesis
      by blast
  qed
  from perm unchanged dflt ok show ?thesis
    by blast
qed

theorem sort_findings_missing_key_witness:
  "sort_findings_by_timestamp
     [[(''source'', PyStr ''no key'')],
      [(''timestamp_dt'', PyDatetime (utc 5)), (''source'', PyStr ''a'')],
      [(''timestamp_dt'', PyDatetime (utc 9)), (''source'', PyStr ''b'')]] =
     [[(''timestamp_dt'', PyDatetime (utc 9)), (''source'', PyStr ''b'')],
      [(''timestamp_dt'', PyDatetime (utc 5)), (''source'', PyStr ''a'')],
      [(''source'', PyStr ''no key'')]]
   \<and> py_sorted
       [[(''source'', PyStr ''no key'')],
        [(''timestamp_dt'', PyDatetime \<lparr>wall = 5, tzinfo = None\<rparr>), (''source'', PyStr ''a'')]]
       sort_key_of True = Inl TypeError
   \<and> sort_findings_by_timestamp
       [[(''source'', PyStr ''no key'')],
        [(''timestamp_dt'', PyDatetime \<lparr>wall = 5, tzinfo = None\<rparr>), (''source'', PyStr ''a'')]] =
       [[(''source'', PyStr ''no key'')],
        [(''timestamp_dt'', PyDatetime \<lparr>wall = 5, tzinfo = None\<rparr>), (''source'', PyStr ''a'')]]"
proof -
  define fs where "fs =
     [[(''source'', PyStr ''no key'')],
      [(''timestamp_dt'', PyDatetime (utc 5)), (''source'', PyStr ''a'')],
      [(''timestamp_dt'', PyDatetime (utc 9)), (''source'', PyStr ''b'')]]"
  define gs where "gs =
     [[(''source'', PyStr ''no key'')],
      [(''timestamp_dt'', PyDatetime \<lparr>wall = 5, tzinfo = None\<rparr>), (''source'', PyStr ''a'')]]"
  have hyp: "\<forall>f\<in>set fs. map_of f ''timestamp_dt'' = None \<or>
      (\<exists>d. map_of f ''timestamp_dt'' = Some (PyDatetime d) \<and> tzinfo d \<noteq> None)"
    by (simp add: fs_def utc_def)
  have ev: "sort_findings_by_timestamp fs =
     [[(''timestamp_dt'', PyDatetime (utc 9)), (''source'', PyStr ''b'')],
      [(''timestamp_dt'', PyDatetime (utc 5)), (''source'', PyStr ''a'')],
      [(''source'', PyStr ''no key'')]]"
    by (simp add: fs_def sort_findings_by_timestamp_def py_sorted_def sort_key_of_def
        dict_get_def dt_lt_def instant_def utc_def)
  have err: "py_sorted gs sort_key_of True = Inl TypeError"
    by (simp add: gs_def py_sorted_def sort_key_of_def dict_get_def dt_lt_def utc_def)
  from sort_findings_missing_key [of gs] err
  have same: "sort_findings_by_timestamp gs = gs"
    by blast
  from sort_findings_missing_key [of fs] hyp
  have "\<exists>r. py_sorted fs sort_key_of True = Inr r"
    by blast
  with ev err same show ?thesis
    unfolding fs_def gs_def by simp
qed

text \<open>
  Where the claim C10 fails as it is written: a finding without the key ties with a
  finding stamped \<open>datetime.min\<close> in UTC, and the stable sort leaves it in front.
\<close>

theorem sort_findings_missing_key_counterexample:
  "map_of [(''source'', PyStr ''no key'')] ''timestamp_dt'' = None
   \<and> sort_findings_by_timestamp
       [[(''source'', PyStr ''no key'')],
        [(''timestamp_dt'', PyDatetime (utc 0)), (''source'', PyStr ''stamped'')]] =
       [[(''source'', PyStr ''no key'')],
        [(''timestamp_dt'', PyDatetime (utc 0)), (''source'', PyStr ''stamped'')]]"
  by (simp add: sort_findings_by_timestamp_def py_sorted_def sort_key_of_def
      dict_get_def dt_lt_def instant_def utc_def)


section \<open>Properties: float rounding\<close>

lemma round_half_even_of_int [simp]: "round_half_even (of_int n) = n"
  by (simp add: round_half_even_def)

lemma round_half_even_error: "\<bar>of_int (round_half_even y) - y\<bar> \<le> 1 / 2"
proof -
  have "of_int \<lfloor>y\<rfloor> \<le> y" "y < of_int \<lfloor>y\<rfloor> + 1" by linarith+
  then show ?thesis
    unfolding round_half_even_def Let_def by (auto simp: abs_if; linarith)
qed

lemma round_half_even_near:
  assumes "\<bar>y - of_int n\<bar> < 1 / 2"
  shows "round_half_even y = n"
proof (cases "of_int n \<le> y")
  case True
  with assms have "\<lfloor>y\<rfloor> = n" by (intro floor_unique) (auto simp: abs_if split: if_splits)
  with assms True show ?thesis
    by (auto simp: round_half_even_def Let_def abs_if split: if_splits)
next
  case False
  with assms have "\<lfloor>y\<rfloor> = n - 1" by (intro floor_unique) (auto simp: abs_if split: if_splits)
  with assms False show ?thesis
    by (auto simp: round_half_even_def Let_def abs_if split: if_splits)
qed

lemma round_half_even_ge:
  assumes "of_int n \<le> y"
  shows "n \<le> round_half_even y"
proof -
  have "n \<le> \<lfloor>y\<rfloor>" using assms by (simp add: le_floor_iff)
  then show ?thesis
    by (auto simp: round_half_even_def Let_def)
qed

lemma ilog2_bounds:
  assumes "0 < x"
  shows "2 powi (ilog2 x) \<le> x \<and> x < 2 powi (ilog2 x + 1)"
proof -
  obtain a b where ab: "quotient_of x = (a, b)"
    by (cases "quotient_of x")
  have b: "0 < b" using ab quotient_of_denom_pos by blast
  have x: "x = of_int a / of_int b" using ab quotient_of_div by blast
  have a: "0 < a" using assms x b by (simp add: zero_less_divide_iff)
  define la lb where "la = bitlen a" and "lb = bitlen b"
  have la: "2 ^ nat (la - 1) \<le> a" "a < 2 ^ nat la"
    using bitlen_bounds [OF a] by (simp_all add: la_def)
  have lb: "2 ^ nat (lb - 1) \<le> b" "b < 2 ^ nat lb"
    using bitlen_bounds [OF b] by (simp_all add: lb_def)
  have la1: "1 \<le> la" using a by (simp add: la_def bitlen_alt_def)
  have lb1: "1 \<le> lb" using b by (simp add: lb_def bitlen_alt_def)
  have ra: "(2::rat) powi (la - 1) \<le> of_int a" "of_int a < (2::rat) powi la"
  proof -
    have "(of_int (2 ^ nat (la - 1)) :: rat) \<le> of_int a" using la(1) by (simp only: of_int_le_iff)
    then show "(2::rat) powi (la - 1) \<le> of_int a" using la1 by (simp add: power_int_def)
    have "(of_int a :: rat) < of_int (2 ^ nat la)" using la(2) by (simp only: of_int_less_iff)
    then show "of_int a < (2::rat) powi la" using la1 by (simp add: power_int_def)
  qed
  have rb: "(2::rat) powi (lb - 1) \<le> of_int b" "of_int b < (2::rat) powi lb"
  proof -
    have "(of_int (2 ^ nat (lb - 1)) :: rat) \<le> of_int b" using lb(1) by (simp only: of_int_le_iff)
    then show "(2::rat) powi (lb - 1) \<le> of_int b" using lb1 by (simp add: power_int_def)
    have "(of_int b :: rat) < of_int (2 ^ nat lb)" using lb(2) by (simp only: of_int_less_iff)
    then show "of_int b < (2::rat) powi lb" using lb1 by (simp add: power_int_def)
  qed
  have bpos: "(0::rat) < of_int b" using b by simp
  have p1: "(2::rat) powi (la - lb + 1) = 2 powi la / 2 powi (lb - 1)"
    using power_int_diff [of "2::rat" la "lb - 1"] by (simp add: algebra_simps)
  have p2: "(2::rat) powi (la - lb - 1) = 2 powi (la - 1) / 2 powi lb"
    using power_int_diff [of "2::rat" "la - 1" lb] by (simp add: algebra_simps)
  have up: "x < 2 powi (la - lb + 1)"
  proof -
    have "x < 2 powi la / of_int b" unfolding x using ra(2) bpos by (simp add: divide_strict_right_mono)
    also have "\<dots> \<le> 2 powi la / 2 powi (lb - 1)"
      using rb(1) by (intro divide_left_mono) (auto intro!: mult_pos_pos bpos)
    finally show ?thesis by (simp add: p1)
  qed
  have lo: "2 powi (la - lb - 1) < x"
  proof -
    have "2 powi (la - 1) / 2 powi lb < (2::rat) powi (la - 1) / of_int b"
      using rb(2) bpos by (intro divide_strict_left_mono) (auto intro!: mult_pos_pos)
    also have "\<dots> \<le> x" unfolding x using ra(1) bpos by (simp add: divide_right_mono)
    finally show ?thesis by (simp add: p2)
  qed
  show ?thesis
    using up lo ab unfolding ilog2_def la_def lb_def
    by (auto simp: Let_def not_le)
qed

lemma ilog2_less:
  assumes "0 < x" and "x < 2 powi k"
  shows "ilog2 x < k"
proof (rule ccontr)
  assume "\<not> ilog2 x < k"
  then have "(2::rat) powi k \<le> 2 powi (ilog2 x)"
    by (intro power_int_increasing) auto
  with ilog2_bounds [OF assms(1)] assms(2) show False by linarith
qed

lemma ilog2_ge:
  assumes "0 < x" and "2 powi k \<le> x"
  shows "k \<le> ilog2 x"
proof (rule ccontr)
  assume "\<not> k \<le> ilog2 x"
  then have "(2::rat) powi (ilog2 x + 1) \<le> 2 powi k"
    by (intro power_int_increasing) auto
  with ilog2_bounds [OF assms(1)] assms(2) show False by linarith
qed

lemma float_round_error:
  assumes "x \<noteq> 0"
  shows "\<bar>float_round x - x\<bar> \<le> 2 powi (max (ilog2 \<bar>x\<bar> - 52) (- 1074)) / 2"
proof -
  define u :: rat where "u = 2 powi (max (ilog2 \<bar>x\<bar> - 52) (- 1074))"
  have u: "0 < u" by (simp add: u_def)
  have fr: "float_round x = of_int (round_half_even (x / u)) * u"
    using assms by (simp add: float_round_def u_def Let_def)
  have "\<bar>of_int (round_half_even (x / u)) - x / u\<bar> * u \<le> 1 / 2 * u"
    using round_half_even_error [of "x / u"] u by (intro mult_right_mono) auto
  moreover have "\<bar>of_int (round_half_even (x / u)) - x / u\<bar> * u =
      \<bar>of_int (round_half_even (x / u)) * u - x\<bar>"
  proof -
    have "\<bar>of_int (round_half_even (x / u)) - x / u\<bar> * u =
        \<bar>(of_int (round_half_even (x / u)) - x / u) * u\<bar>"
      using u by (simp add: abs_mult)
    also have "(of_int (round_half_even (x / u)) - x / u) * u =
        of_int (round_half_even (x / u)) * u - x"
      using u by (simp add: algebra_simps)
    finally show ?thesis .
  qed
  ultimately have "\<bar>of_int (round_half_even (x / u)) * u - x\<bar> \<le> u / 2"
    by simp
  then show ?thesis
    unfolding fr u_def .
qed

lemma float_round_ge_int:
  assumes "0 < x" and "of_int s \<le> x" and "x < 2 powi 53" and "2 powi (- 1022) \<le> x"
  shows "of_int s \<le> float_round x"
proof -
  define e where "e = ilog2 \<bar>x\<bar>"
  have e: "e < 53" "- 1022 \<le> e"
    using ilog2_less [of "\<bar>x\<bar>" 53] ilog2_ge [of "\<bar>x\<bar>" "- 1022"] assms
    by (simp_all add: e_def)
  define N :: int where "N = 2 ^ nat (52 - e)"
  define u :: rat where "u = 2 powi (e - 52)"
  have u: "0 < u" by (simp add: u_def)
  have uN: "u * of_int N = 1"
    using e by (simp add: u_def N_def power_int_def power_inverse [symmetric] field_simps)
  have m: "max (ilog2 \<bar>x\<bar> - 52) (- 1074) = e - 52"
    using e by (simp add: e_def)
  have "x \<noteq> 0" using assms(1) by simp
  then have fr: "float_round x = of_int (round_half_even (x / u)) * u"
    unfolding float_round_def Let_def m u_def by simp
  have "x / u = x * of_int N"
    using uN u by (simp add: field_simps)
  moreover have "of_int s * of_int N \<le> x * (of_int N :: rat)"
    using assms(2) by (intro mult_right_mono) (auto simp: N_def)
  ultimately have "of_int (s * N) \<le> x / u" by simp
  then have "s * N \<le> round_half_even (x / u)"
    by (rule round_half_even_ge)
  then have "(of_int (s * N) :: rat) \<le> of_int (round_half_even (x / u))"
    by (simp only: of_int_le_iff)
  then have "of_int (s * N) * u \<le> of_int (round_half_even (x / u)) * u"
    using u by (intro mult_right_mono) auto
  moreover have "of_int (s * N) * u = (of_int s :: rat)"
  proof -
    have "of_int (s * N) * u = of_int s * (u * of_int N)" by (simp add: algebra_simps)
    then show ?thesis by (simp only: uN mult_1_right)
  qed
  ultimately show ?thesis by (simp only: fr)
qed

lemma float_round_of_int:
  assumes "\<bar>n\<bar> < 2 ^ 53"
  shows "float_round (of_int n) = of_int n"
proof (cases "n = 0")
  case True
  then show ?thesis by (simp add: float_round_def)
next
  case False
  define x :: rat where "x = of_int n"
  define e where "e = ilog2 \<bar>x\<bar>"
  have ax: "0 < \<bar>x\<bar>" "1 \<le> \<bar>x\<bar>" "\<bar>x\<bar> < 2 powi 53"
  proof -
    show "0 < \<bar>x\<bar>" using False by (simp add: x_def)
    have "1 \<le> \<bar>n\<bar>" using False by simp
    then have "(of_int 1 :: rat) \<le> of_int \<bar>n\<bar>" by (simp only: of_int_le_iff)
    then show "1 \<le> \<bar>x\<bar>" by (simp add: x_def)
    have "(of_int \<bar>n\<bar> :: rat) < of_int (2 ^ 53)" using assms by (simp only: of_int_less_iff)
    then show "\<bar>x\<bar> < 2 powi 53" by (simp add: x_def)
  qed
  have e: "e < 53" "0 \<le> e"
    using ilog2_less [OF ax(1) ax(3)] ilog2_ge [of "\<bar>x\<bar>" 0] ax by (simp_all add: e_def)
  define N :: int where "N = 2 ^ nat (52 - e)"
  define u :: rat where "u = 2 powi (e - 52)"
  have u: "0 < u" by (simp add: u_def)
  have uN: "u * of_int N = 1"
    using e by (simp add: u_def N_def power_int_def power_inverse [symmetric] field_simps)
  have m: "max (ilog2 \<bar>x\<bar> - 52) (- 1074) = e - 52"
    using e by (simp add: e_def)
  have "x \<noteq> 0" using ax(1) by simp
  then have fr: "float_round x = of_int (round_half_even (x / u)) * u"
    unfolding float_round_def Let_def m u_def by simp
  have "x / u = x * of_int N"
    using uN u by (simp add: field_simps)
  then have "x / u = of_int (n * N)" by (simp add: x_def)
  then have "float_round x = of_int (n * N) * u"
    by (simp only: fr round_half_even_of_int)
  also have "\<dots> = of_int n"
  proof -
    have "of_int (n * N) * u = of_int n * (u * of_int N)" by (simp add: algebra_simps)
    then show ?thesis by (simp only: uN mult_1_right)
  qed
  finally show ?thesis by (simp add: x_def)
qed

lemma epoch_1601: "datetime_utc 1601 1 1 = utc 50491123200000000"
  by code_simp

lemma epoch_1970: "datetime_utc 1970 1 1 = utc 62135596800000000"
  by code_simp

lemma round_half_even_0 [simp]: "round_half_even 0 = 0"
  using round_half_even_of_int [of 0] by simp

lemma float_round_0 [simp]: "float_round 0 = 0"
  by (simp add: float_round_def)

lemma fromtimestamp_utc_split:
  assumes "py_trunc x = s" and "round_half_even (float_round ((x - of_int s) * 1000000)) = u"
    and "0 \<le> u" "u < 1000000" "0 \<le> s" "s < 8589934592" "gm s"
  shows "fromtimestamp_utc gm x = Inr (utc (62135596800000000 + (s * 1000000 + u)))"
  using assms
  by (simp add: fromtimestamp_utc_def epoch_1970 utc_def DATETIME_MAX_def US_PER_DAY_def Let_def)

lemma firefox_exact:
  assumes f: "0 \<le> f" "f < 8589934592000000" and gm: "gm (f div 1000000)"
  shows "firefox_visit_dt gm f = Inr (utc (62135596800000000 + f))"
proof (cases "f = 0")
  case True
  have "fromtimestamp_utc gm 0 = Inr (utc (62135596800000000 + (0 * 1000000 + 0)))"
    using gm True by (intro fromtimestamp_utc_split) (simp_all add: py_trunc_def)
  with True show ?thesis
    by (simp add: firefox_visit_dt_def py_truediv_def)
next
  case False
  define s u where "s = f div 1000000" and "u = f mod 1000000"
  define q :: rat where "q = of_int f / 1000000"
  define x where "x = float_round q"
  have fsu: "f = s * 1000000 + u" by (simp add: s_def u_def)
  have u: "0 \<le> u" "u \<le> 999999" by (simp_all add: u_def)
  have s: "0 \<le> s" "s < 8589934592" using f by (simp_all add: s_def)
  have q_su: "q = of_int s + of_int u / 1000000"
    by (simp add: q_def fsu)
  have fpos: "1 \<le> f" using f False by simp
  have qlo: "1 / 1000000 \<le> q"
  proof -
    have "(of_int 1 :: rat) \<le> of_int f" using fpos by (simp only: of_int_le_iff)
    then show ?thesis by (simp add: q_def)
  qed
  have qpos: "0 < q" using qlo by simp
  have qhi: "q < 8589934592"
  proof -
    have "(of_int f :: rat) < of_int 8589934592000000" using f by (simp only: of_int_less_iff)
    then show ?thesis by (simp add: q_def)
  qed
  have s_le_q: "of_int s \<le> q"
  proof -
    have "(0::rat) \<le> of_int u" using u by simp
    then show ?thesis by (simp add: q_su)
  qed
  have q_le: "q \<le> of_int s + 999999 / 1000000"
  proof -
    have "(of_int u :: rat) \<le> of_int 999999" using u by (simp only: of_int_le_iff)
    then show ?thesis by (simp add: q_su)
  qed
  have e33: "ilog2 \<bar>q\<bar> < 33"
    using qpos qhi by (intro ilog2_less) auto
  have "max (ilog2 \<bar>q\<bar> - 52) (- 1074) \<le> - 20"
    using e33 by simp
  then have "(2::rat) powi (max (ilog2 \<bar>q\<bar> - 52) (- 1074)) \<le> 2 powi (- 20)"
    by (intro power_int_increasing) auto
  with float_round_error [of q] qpos have err: "\<bar>x - q\<bar> \<le> 1 / 2097152"
    by (simp add: x_def)
  have x_ge: "of_int s \<le> x"
    unfolding x_def using qpos s_le_q qhi qlo
    by (intro float_round_ge_int) (auto simp: power_int_minus field_simps intro: order_trans)
  have x_lt: "x < of_int s + 1"
    using err q_le unfolding abs_le_iff by linarith
  have x0: "0 \<le> x"
  proof -
    have "(0::rat) \<le> of_int s" using s by simp
    with x_ge show ?thesis by simp
  qed
  have tr: "py_trunc x = s"
    using x0 x_ge x_lt by (simp add: py_trunc_def floor_unique)
  define y where "y = (x - of_int s) * 1000000"
  have y_u: "y - of_int u = (x - q) * 1000000"
    by (simp add: y_def q_su algebra_simps)
  have yerr: "\<bar>y - of_int u\<bar> \<le> 1000000 / 2097152"
  proof -
    have "\<bar>(x - q) * 1000000\<bar> = \<bar>x - q\<bar> * \<bar>1000000\<bar>" by (rule abs_mult)
    also have "\<dots> = \<bar>x - q\<bar> * 1000000" by simp
    also have "\<dots> \<le> 1 / 2097152 * 1000000" using err by (intro mult_right_mono) auto
    finally show ?thesis unfolding y_u by simp
  qed
  have ub: "(0::rat) \<le> of_int u" "(of_int u :: rat) \<le> 999999"
  proof -
    show "(0::rat) \<le> of_int u" using u by simp
    have "(of_int u :: rat) \<le> of_int 999999" using u by (simp only: of_int_le_iff)
    then show "(of_int u :: rat) \<le> 999999" by simp
  qed
  have y0: "0 \<le> y" using x_ge by (simp add: y_def)
  have yhi: "y < 1048576" using yerr ub unfolding abs_le_iff by linarith
  have zerr: "\<bar>float_round y - y\<bar> \<le> 1 / 17179869184"
  proof (cases "y = 0")
    case True
    then show ?thesis by simp
  next
    case False
    with y0 have ypos: "0 < \<bar>y\<bar>" "\<bar>y\<bar> = y" by simp_all
    have "ilog2 \<bar>y\<bar> < 20"
      using ypos yhi by (intro ilog2_less) auto
    then have "max (ilog2 \<bar>y\<bar> - 52) (- 1074) \<le> - 33" by simp
    then have "(2::rat) powi (max (ilog2 \<bar>y\<bar> - 52) (- 1074)) \<le> 2 powi (- 33)"
      by (intro power_int_increasing) auto
    with float_round_error [OF False] show ?thesis by simp
  qed
  have "\<bar>float_round y - of_int u\<bar> \<le> \<bar>float_round y - y\<bar> + \<bar>y - of_int u\<bar>"
    by simp
  with zerr yerr have "\<bar>float_round y - of_int u\<bar> < 1 / 2"
    by linarith
  then have rz: "round_half_even (float_round y) = u"
    by (rule round_half_even_near)
  have ft: "fromtimestamp_utc gm x = Inr (utc (62135596800000000 + (s * 1000000 + u)))"
    using tr rz u s gm unfolding y_def s_def [symmetric]
    by (intro fromtimestamp_utc_split) simp_all
  have "\<bar>x\<bar> < 2 powi 1024"
  proof -
    have "(of_int s :: rat) < of_int 8589934592" using s by (simp only: of_int_less_iff)
    then have "x < 8589934593" using x_lt by simp
    also have "(8589934593 :: rat) < 2 powi 1024" by simp
    finally show ?thesis using x0 by simp
  qed
  then have "py_truediv f 1000000 = Inr x"
    by (simp add: py_truediv_def x_def q_def Let_def)
  with ft fsu show ?thesis
    by (simp add: firefox_visit_dt_def)
qed


section \<open>Properties: timestamp conversion\<close>

lemma py_truediv_raises: "py_truediv a b = Inl e \<Longrightarrow> e = OverflowError"
  by (auto simp: py_truediv_def Let_def split: if_splits)

lemma timedelta_new_raises: "timedelta_new us = Inl e \<Longrightarrow> e = OverflowError"
  by (auto simp: timedelta_new_def split: if_splits)

lemma timedelta_seconds_raises: "timedelta_seconds x = Inl e \<Longrightarrow> e = OverflowError"
  by (auto simp: timedelta_seconds_def Let_def dest: timedelta_new_raises)

lemma dt_add_raises: "dt_add d td = Inl e \<Longrightarrow> e = OverflowError"
  by (auto simp: dt_add_def Let_def split: if_splits)

lemma dt_add_Inr: "dt_add d td = Inr r \<Longrightarrow>
    r = d\<lparr>wall := wall d + td\<rparr> \<and> 0 \<le> wall r \<and> wall r \<le> DATETIME_MAX"
  by (auto simp: dt_add_def Let_def split: if_splits)

lemma filetime_to_datetime_total: "\<exists>r. filetime_to_datetime ft = Inr r"
  by (auto simp: filetime_to_datetime_def Let_def
      split: option.splits sum.splits
      dest: py_truediv_raises timedelta_seconds_raises dt_add_raises)

lemma filetime_to_datetime_range:
  assumes "filetime_to_datetime ft = Inr (Some d)"
  shows "tzinfo d = Some 0 \<and> 0 \<le> wall d \<and> wall d \<le> DATETIME_MAX"
  using assms
  by (auto simp: filetime_to_datetime_def Let_def epoch_1601 utc_def
      split: option.splits sum.splits if_splits dest!: dt_add_Inr)

lemma timedelta_seconds_whole:
  "timedelta_seconds (of_int n) = timedelta_new (n * 1000000)"
  by (simp add: timedelta_seconds_def py_trunc_def Let_def)

lemma py_truediv_whole:
  assumes "\<bar>n\<bar> < 2 ^ 53" "b \<noteq> 0"
  shows "py_truediv (n * b) b = Inr (of_int n)"
proof -
  have "(of_int \<bar>n\<bar> :: rat) < of_int (2 ^ 53)" using assms by (simp only: of_int_less_iff)
  then have "\<bar>of_int n :: rat\<bar> < 2 ^ 53" by simp
  also have "\<dots> < 2 powi 1024" by simp
  finally have "\<not> 2 powi 1024 \<le> \<bar>of_int n :: rat\<bar>" by simp
  moreover have "float_round (of_int (n * b) / of_int b) = of_int n"
    using assms float_round_of_int [of n] by simp
  ultimately show ?thesis
    by (simp add: py_truediv_def Let_def del: of_int_mult)
qed

lemma filetime_whole_seconds:
  assumes "0 < n" "n < 2 ^ 53"
  shows "filetime_to_datetime (Some (n * 10000000)) =
    Inr (if 50491123200000000 + n * 1000000 \<le> DATETIME_MAX
         then Some (utc (50491123200000000 + n * 1000000)) else None)"
proof -
  have td: "py_truediv (n * 10000000) 10000000 = Inr (of_int n)"
    using assms by (intro py_truediv_whole) auto
  show ?thesis
    using assms
    by (auto simp: filetime_to_datetime_def td timedelta_seconds_whole timedelta_new_def
        dt_add_def epoch_1601 utc_def DATETIME_MAX_def US_PER_DAY_def Let_def
        split: sum.splits)
qed


lemma epoch_2024: "datetime_utc 2024 1 1 = utc 63839664000000000"
  by code_simp

lemma chrome_exact:
  assumes "0 \<le> c" "c \<le> 202911177599999999"
  shows "chrome_visit_dt c = Inr (utc (50491123200000000 + c))"
  using assms
  by (simp add: chrome_visit_dt_def timedelta_new_def dt_add_def epoch_1601 utc_def
      DATETIME_MAX_def US_PER_DAY_def Let_def)

lemma float_round_nonneg:
  assumes "0 \<le> x"
  shows "0 \<le> float_round x"
proof (cases "x = 0")
  case True
  then show ?thesis by simp
next
  case False
  define u :: rat where "u = 2 powi (max (ilog2 \<bar>x\<bar> - 52) (- 1074))"
  have u: "0 < u" by (simp add: u_def)
  have "of_int 0 \<le> x / u" using assms u by simp
  then have "0 \<le> round_half_even (x / u)" by (rule round_half_even_ge)
  then have "(0::rat) \<le> of_int (round_half_even (x / u)) * u" using u by simp
  then show ?thesis using False by (simp add: float_round_def u_def Let_def)
qed

lemma float_round_error_below:
  assumes "0 < x" and "x < 2 powi k" and "- 1021 \<le> k"
  shows "\<bar>float_round x - x\<bar> \<le> 2 powi (k - 54)"
proof -
  have "ilog2 \<bar>x\<bar> < k" using assms by (intro ilog2_less) auto
  then have "max (ilog2 \<bar>x\<bar> - 52) (- 1074) \<le> k - 53" using assms(3) by simp
  then have "(2::rat) powi (max (ilog2 \<bar>x\<bar> - 52) (- 1074)) \<le> 2 powi (k - 53)"
    by (intro power_int_increasing) auto
  moreover have "(2::rat) powi (k - 53) / 2 = 2 powi (k - 54)"
    using power_int_diff [of "2::rat" "k - 53" 1] by simp
  moreover have "\<bar>float_round x - x\<bar> \<le> 2 powi (max (ilog2 \<bar>x\<bar> - 52) (- 1074)) / 2"
    using assms(1) by (intro float_round_error) simp
  ultimately show ?thesis by linarith
qed

lemma timedelta_seconds_error:
  assumes "0 \<le> x"
  shows "\<exists>r. timedelta_seconds x = timedelta_new r
      \<and> \<lfloor>x\<rfloor> * 1000000 \<le> r
      \<and> \<bar>of_int r - x * 1000000\<bar> \<le> 1 / 2 + 1 / 17179869184"
proof -
  define ip where "ip = \<lfloor>x\<rfloor>"
  define y where "y = (x - of_int ip) * 1000000"
  define fy where "fy = float_round y"
  define rr where "rr = round_half_even fy"
  have tr: "py_trunc x = ip" using assms by (simp add: py_trunc_def ip_def)
  have fr: "0 \<le> x - of_int ip" "x - of_int ip < 1" unfolding ip_def by linarith+
  have y0: "0 \<le> y" using fr by (simp add: y_def)
  have y1: "y < 1000000" using fr by (simp add: y_def)
  have yerr: "\<bar>fy - y\<bar> \<le> 1 / 17179869184"
  proof (cases "y = 0")
    case True
    then show ?thesis by (simp add: fy_def)
  next
    case False
    with y0 have "0 < y" by simp
    moreover have "y < 2 powi 20" using y1 by simp
    ultimately have "\<bar>float_round y - y\<bar> \<le> 2 powi (20 - 54)"
      by (intro float_round_error_below) auto
    then show ?thesis by (simp add: fy_def)
  qed
  have fy0: "0 \<le> fy" unfolding fy_def using y0 by (rule float_round_nonneg)
  have rr0: "0 \<le> rr" unfolding rr_def using fy0 by (intro round_half_even_ge) simp
  have rerr: "\<bar>of_int rr - fy\<bar> \<le> 1 / 2" unfolding rr_def by (rule round_half_even_error)
  have td: "timedelta_seconds x = timedelta_new (ip * 1000000 + rr)"
    by (simp add: timedelta_seconds_def tr Let_def rr_def fy_def y_def)
  have "of_int (ip * 1000000 + rr) - x * 1000000 = (of_int rr - fy) + (fy - y)"
    by (simp add: y_def algebra_simps)
  then have "\<bar>of_int (ip * 1000000 + rr) - x * 1000000\<bar> \<le> \<bar>of_int rr - fy\<bar> + \<bar>fy - y\<bar>"
    by (simp only: abs_triangle_ineq)
  with rerr yerr have "\<bar>of_int (ip * 1000000 + rr) - x * 1000000\<bar> \<le> 1 / 2 + 1 / 17179869184"
    by linarith
  moreover have "ip * 1000000 \<le> ip * 1000000 + rr" using rr0 by simp
  ultimately show ?thesis using td unfolding ip_def by blast
qed

lemma py_truediv_filetime:
  assumes "0 < ft" and "of_int ft < 2 powi k * (10000000::rat)" and "k \<le> 41" and "- 1021 \<le> k"
  shows "py_truediv ft 10000000 = Inr (float_round (of_int ft / 10000000))"
    and "0 \<le> float_round (of_int ft / 10000000)"
    and "\<bar>float_round (of_int ft / 10000000) - of_int ft / 10000000\<bar> \<le> 2 powi (k - 54)"
proof -
  define q :: rat where "q = of_int ft / 10000000"
  define x where "x = float_round q"
  have qpos: "0 < q" using assms(1) by (simp add: q_def)
  have qk: "q < 2 powi k" using assms(2) by (simp add: q_def field_simps)
  have err: "\<bar>x - q\<bar> \<le> 2 powi (k - 54)"
    unfolding x_def using qpos qk assms(4) by (rule float_round_error_below)
  have x0: "0 \<le> x" unfolding x_def using qpos by (intro float_round_nonneg) simp
  have "(2::rat) powi (k - 54) \<le> 2 powi 41" using assms(3) by (intro power_int_increasing) auto
  moreover have "(2::rat) powi k \<le> 2 powi 41" using assms(3) by (intro power_int_increasing) auto
  ultimately have "x < 2 powi 41 + 2 powi 41" using err qk unfolding abs_le_iff by linarith
  also have "\<dots> < (2::rat) powi 1024" by simp
  finally have "\<not> 2 powi 1024 \<le> \<bar>x\<bar>" using x0 by simp
  then show "py_truediv ft 10000000 = Inr (float_round (of_int ft / 10000000))"
    by (simp add: py_truediv_def x_def q_def Let_def)
  show "0 \<le> float_round (of_int ft / 10000000)" using x0 by (simp add: x_def q_def)
  show "\<bar>float_round (of_int ft / 10000000) - of_int ft / 10000000\<bar> \<le> 2 powi (k - 54)"
    using err by (simp add: x_def q_def)
qed


lemma filetime_ticks:
  assumes "0 < ft" and "ft < 2 ^ 64"
  shows "\<exists>r. 0 \<le> r
      \<and> filetime_to_datetime (Some ft) =
          Inr (if 50491123200000000 + r \<le> DATETIME_MAX
               then Some (utc (50491123200000000 + r)) else None)
      \<and> (ft < 2748779069440000000 \<longrightarrow> \<bar>10 * r - ft\<bar> \<le> 157)
      \<and> (ft < 171798691840000000 \<longrightarrow> \<bar>10 * r - ft\<bar> \<le> 14)
      \<and> (2748779069440000000 \<le> ft \<longrightarrow> 274877906944000000 \<le> r)"
proof -
  define q :: rat where "q = of_int ft / 10000000"
  define x where "x = float_round q"
  have ftr: "(of_int ft :: rat) < of_int (2 ^ 64)" using assms(2) by (simp only: of_int_less_iff)
  have ft41: "of_int ft < 2 powi 41 * (10000000::rat)"
    using ftr by simp
  note dv = py_truediv_filetime [OF assms(1) ft41, folded q_def x_def]
  have div: "py_truediv ft 10000000 = Inr x" and x0: "0 \<le> x"
    and xerr: "\<bar>x - q\<bar> \<le> 2 powi (41 - 54)"
    using dv by simp_all
  obtain r where td: "timedelta_seconds x = timedelta_new r"
    and rlo: "\<lfloor>x\<rfloor> * 1000000 \<le> r"
    and rerr: "\<bar>of_int r - x * 1000000\<bar> \<le> 1 / 2 + 1 / 17179869184"
    using timedelta_seconds_error [OF x0] by blast
  have r0: "0 \<le> r"
  proof -
    have "0 \<le> \<lfloor>x\<rfloor>" using x0 by simp
    then have "0 \<le> \<lfloor>x\<rfloor> * 1000000" by simp
    with rlo show ?thesis by linarith
  qed
  have q10: "q * 1000000 = of_int ft / 10" by (simp add: q_def)
  have qhi: "q < 2199023255552" using ft41 by (simp add: q_def)
  have xhi: "x < 2199023255553" using xerr qhi unfolding abs_le_iff by simp
  have "of_int r < (2199023255553000001 :: rat)"
    using rerr xhi unfolding abs_le_iff by linarith
  then have rhi: "r < 2199023255553000001" by simp
  have tn: "timedelta_new r = Inr r"
    using r0 rhi by (simp add: timedelta_new_def US_PER_DAY_def)
  have res: "filetime_to_datetime (Some ft) =
      Inr (if 50491123200000000 + r \<le> DATETIME_MAX
           then Some (utc (50491123200000000 + r)) else None)"
    using assms(1) r0
    by (simp add: filetime_to_datetime_def div td tn dt_add_def epoch_1601 utc_def Let_def)
  have bound: "\<bar>of_int (10 * r - ft) :: rat\<bar> \<le> 5 + 10 / 17179869184 + 10000000 * 2 powi (k - 54)"
    if k: "of_int ft < 2 powi k * (10000000::rat)" "k \<le> 41" "- 1021 \<le> k" for k
  proof -
    have e: "\<bar>x - q\<bar> \<le> 2 powi (k - 54)"
      using py_truediv_filetime(3) [OF assms(1) k] by (simp add: x_def q_def)
    have "of_int r - of_int ft / 10 = (of_int r - x * 1000000) + (x - q) * 1000000"
      by (simp add: q10 [symmetric] algebra_simps)
    then have "\<bar>of_int r - of_int ft / 10 :: rat\<bar> \<le>
        \<bar>of_int r - x * 1000000\<bar> + \<bar>(x - q) * 1000000\<bar>"
      by (simp only: abs_triangle_ineq)
    moreover have "\<bar>(x - q) * 1000000\<bar> = \<bar>x - q\<bar> * 1000000"
    proof -
      have "\<bar>(x - q) * 1000000\<bar> = \<bar>x - q\<bar> * \<bar>1000000\<bar>" by (rule abs_mult)
      also have "\<dots> = \<bar>x - q\<bar> * 1000000" by simp
      finally show ?thesis .
    qed
    moreover have "\<bar>x - q\<bar> * 1000000 \<le> 2 powi (k - 54) * 1000000"
      using e by (intro mult_right_mono) auto
    ultimately have "\<bar>of_int r - of_int ft / 10 :: rat\<bar> \<le>
        1 / 2 + 1 / 17179869184 + 2 powi (k - 54) * 1000000"
      using rerr by linarith
    moreover have "(of_int (10 * r - ft) :: rat) = 10 * (of_int r - of_int ft / 10)"
      by simp
    ultimately show ?thesis
      by (simp add: abs_mult)
  qed
  have b38: "\<bar>10 * r - ft\<bar> \<le> 157" if "ft < 2748779069440000000"
  proof -
    have "(of_int ft :: rat) < of_int 2748779069440000000" using that by (simp only: of_int_less_iff)
    then have "of_int ft < 2 powi 38 * (10000000::rat)" by simp
    from bound [OF this] have "\<bar>of_int (10 * r - ft) :: rat\<bar> < 158" by simp
    then have "(of_int \<bar>10 * r - ft\<bar> :: rat) < of_int 158" by simp
    then have "\<bar>10 * r - ft\<bar> < 158" by (simp only: of_int_less_iff)
    then show ?thesis by simp
  qed
  have b34: "\<bar>10 * r - ft\<bar> \<le> 14" if "ft < 171798691840000000"
  proof -
    have "(of_int ft :: rat) < of_int 171798691840000000" using that by (simp only: of_int_less_iff)
    then have "of_int ft < 2 powi 34 * (10000000::rat)" by simp
    from bound [OF this] have "\<bar>of_int (10 * r - ft) :: rat\<bar> < 15" by simp
    then have "(of_int \<bar>10 * r - ft\<bar> :: rat) < of_int 15" by simp
    then have "\<bar>10 * r - ft\<bar> < 15" by (simp only: of_int_less_iff)
    then show ?thesis by simp
  qed
  have far: "274877906944000000 \<le> r" if "2748779069440000000 \<le> ft"
  proof -
    have "(of_int 2748779069440000000 :: rat) \<le> of_int ft" using that by (simp only: of_int_le_iff)
    then have qlo: "of_int 274877906944 \<le> q" by (simp add: q_def)
    have qpos: "0 < q" using assms(1) by (simp add: q_def)
    have "of_int 274877906944 \<le> float_round q"
      using qpos qlo qhi
      by (intro float_round_ge_int) (auto simp: power_int_minus field_simps intro: order_trans)
    then have "274877906944 \<le> \<lfloor>x\<rfloor>" by (simp add: x_def le_floor_iff)
    then have "274877906944 * 1000000 \<le> \<lfloor>x\<rfloor> * 1000000" by (intro mult_right_mono) auto
    with rlo show ?thesis by linarith
  qed
  from r0 res b38 b34 far show ?thesis by blast
qed


lemma filetime_rounding_example:
  "filetime_to_datetime (Some 133485408000000010) = Inr (Some (utc 63839664000000002))"
  by code_simp

text \<open>
  C4, as the code has it. \<open>None\<close> and 0 convert to \<open>None\<close>; the conversion never
  raises; a result is an aware UTC value inside \<open>datetime.min .. datetime.max\<close>, and
  what falls outside is \<open>None\<close>. A tick count of whole seconds converts to exactly
  the 1601 epoch plus that many seconds, so the tick count of 2024-01-01T00:00:00Z
  converts to that instant. Every other 64-bit tick count goes through the rounding of
  \<open>filetime / 10000000\<close> to a float and of the fraction to whole microseconds: its
  result is within 157 ticks (15.7 microseconds) of the 1601 epoch plus
  \<open>ticks / 10000000\<close> seconds, within 14 ticks for a tick count below \<open>2\<^sup>3\<^sup>4\<close> seconds
  (2145); there is a result when that sum is at least 157 ticks inside
  \<open>datetime.max\<close>, and \<open>None\<close> when it is more than 157 ticks beyond.
\<close>

theorem filetime_to_datetime_conversion:
  "filetime_to_datetime None = Inr None
   \<and> filetime_to_datetime (Some 0) = Inr None
   \<and> (\<exists>r. filetime_to_datetime ft = Inr r)
   \<and> (\<forall>d. filetime_to_datetime ft = Inr (Some d) \<longrightarrow>
          tzinfo d = Some 0 \<and> 0 \<le> wall d \<and> wall d \<le> DATETIME_MAX)
   \<and> (\<forall>n. 0 < n \<and> n < 2 ^ 53 \<longrightarrow>
          filetime_to_datetime (Some (n * 10000000)) =
            Inr (if wall (datetime_utc 1601 1 1) + n * 1000000 \<le> DATETIME_MAX
                 then Some (utc (wall (datetime_utc 1601 1 1) + n * 1000000)) else None))
   \<and> filetime_to_datetime (Some 133485408000000000) = Inr (Some (datetime_utc 2024 1 1))
   \<and> (\<forall>d. 0 < ticks \<and> ticks < 2 ^ 64 \<and> filetime_to_datetime (Some ticks) = Inr (Some d) \<longrightarrow>
          \<bar>10 * (wall d - wall (datetime_utc 1601 1 1)) - ticks\<bar> \<le> 157
          \<and> (ticks < 171798691840000000 \<longrightarrow>
                \<bar>10 * (wall d - wall (datetime_utc 1601 1 1)) - ticks\<bar> \<le> 14))
   \<and> (0 < ticks \<and> 10 * wall (datetime_utc 1601 1 1) + ticks + 157 \<le> 10 * DATETIME_MAX \<longrightarrow>
          (\<exists>d. filetime_to_datetime (Some ticks) = Inr (Some d)))
   \<and> (ticks < 2 ^ 64 \<and> 10 * DATETIME_MAX + 157 < 10 * wall (datetime_utc 1601 1 1) + ticks \<longrightarrow>
          filetime_to_datetime (Some ticks) = Inr None)"
proof -
  have none: "filetime_to_datetime None = Inr None" "filetime_to_datetime (Some 0) = Inr None"
    by (simp_all add: filetime_to_datetime_def)
  have whole: "filetime_to_datetime (Some (n * 10000000)) =
      Inr (if wall (datetime_utc 1601 1 1) + n * 1000000 \<le> DATETIME_MAX
           then Some (utc (wall (datetime_utc 1601 1 1) + n * 1000000)) else None)"
    if "0 < n \<and> n < 2 ^ 53" for n
    using filetime_whole_seconds [of n] that by (simp add: epoch_1601 utc_def)
  have y2024: "filetime_to_datetime (Some 133485408000000000) = Inr (Some (datetime_utc 2024 1 1))"
    using filetime_whole_seconds [of 13348540800]
    by (simp add: epoch_2024 DATETIME_MAX_def US_PER_DAY_def)
  have ep: "wall (datetime_utc 1601 1 1) = 50491123200000000"
    by (simp add: epoch_1601 utc_def)
  have dmax: "DATETIME_MAX = 315537897599999999"
    by (simp add: DATETIME_MAX_def US_PER_DAY_def)
  have near: "\<bar>10 * (wall d - wall (datetime_utc 1601 1 1)) - ticks\<bar> \<le> 157
      \<and> (ticks < 171798691840000000 \<longrightarrow>
            \<bar>10 * (wall d - wall (datetime_utc 1601 1 1)) - ticks\<bar> \<le> 14)"
    if h: "0 < ticks \<and> ticks < 2 ^ 64 \<and> filetime_to_datetime (Some ticks) = Inr (Some d)" for d
  proof -
    from h have t: "0 < ticks" "ticks < 2 ^ 64" by simp_all
    from filetime_ticks [OF t] obtain r where r: "0 \<le> r"
      and res: "filetime_to_datetime (Some ticks) =
          Inr (if 50491123200000000 + r \<le> DATETIME_MAX
               then Some (utc (50491123200000000 + r)) else None)"
      and b38: "ticks < 2748779069440000000 \<longrightarrow> \<bar>10 * r - ticks\<bar> \<le> 157"
      and b34: "ticks < 171798691840000000 \<longrightarrow> \<bar>10 * r - ticks\<bar> \<le> 14"
      and far: "2748779069440000000 \<le> ticks \<longrightarrow> 274877906944000000 \<le> r"
      by blast
    from h res have le: "50491123200000000 + r \<le> DATETIME_MAX"
      and d: "d = utc (50491123200000000 + r)"
      by (simp_all split: if_splits)
    have w: "wall d - wall (datetime_utc 1601 1 1) = r"
      by (simp add: d ep utc_def)
    have "ticks < 2748779069440000000"
      using far le unfolding dmax by linarith
    with b38 b34 show ?thesis
      unfolding w by simp
  qed
  have inside: "\<exists>d. filetime_to_datetime (Some ticks) = Inr (Some d)"
    if h: "0 < ticks \<and> 10 * wall (datetime_utc 1601 1 1) + ticks + 157 \<le> 10 * DATETIME_MAX"
  proof -
    from h have t: "0 < ticks" "ticks < 2 ^ 64" "ticks < 2748779069440000000"
      unfolding ep dmax by simp_all
    from filetime_ticks [OF t(1,2)] obtain r where r: "0 \<le> r"
      and res: "filetime_to_datetime (Some ticks) =
          Inr (if 50491123200000000 + r \<le> DATETIME_MAX
               then Some (utc (50491123200000000 + r)) else None)"
      and b38: "ticks < 2748779069440000000 \<longrightarrow> \<bar>10 * r - ticks\<bar> \<le> 157"
      by blast
    from b38 t(3) have "10 * r \<le> ticks + 157" by linarith
    with h have "50491123200000000 + r \<le> DATETIME_MAX"
      unfolding ep dmax by linarith
    with res show ?thesis by simp
  qed
  have outside: "filetime_to_datetime (Some ticks) = Inr None"
    if h: "ticks < 2 ^ 64 \<and> 10 * DATETIME_MAX + 157 < 10 * wall (datetime_utc 1601 1 1) + ticks"
  proof -
    from h have t: "0 < ticks" "ticks < 2 ^ 64"
      unfolding ep dmax by simp_all
    from filetime_ticks [OF t] obtain r where r: "0 \<le> r"
      and res: "filetime_to_datetime (Some ticks) =
          Inr (if 50491123200000000 + r \<le> DATETIME_MAX
               then Some (utc (50491123200000000 + r)) else None)"
      and b38: "ticks < 2748779069440000000 \<longrightarrow> \<bar>10 * r - ticks\<bar> \<le> 157"
      and far: "2748779069440000000 \<le> ticks \<longrightarrow> 274877906944000000 \<le> r"
      by blast
    have "\<not> 50491123200000000 + r \<le> DATETIME_MAX"
    proof (cases "ticks < 2748779069440000000")
      case True
      with b38 have "ticks - 157 \<le> 10 * r" by linarith
      with h show ?thesis unfolding ep dmax by linarith
    next
      case False
      with far show ?thesis unfolding dmax by linarith
    qed
    with res show ?thesis by simp
  qed
  from none filetime_to_datetime_total [of ft] filetime_to_datetime_range [of ft] whole y2024
    near inside outside
  show ?thesis
    by blast
qed

theorem filetime_to_datetime_conversion_witness:
  "filetime_to_datetime (Some 133485408000000000) = Inr (Some (utc 63839664000000000))
   \<and> tzinfo (utc 63839664000000000) = Some 0
   \<and> wall (utc 63839664000000000) \<le> DATETIME_MAX
   \<and> filetime_to_datetime (Some (1844674407370 * 10000000)) = Inr None
   \<and> filetime_to_datetime (Some 133485408000000010) = Inr (Some (utc 63839664000000002))
   \<and> \<bar>10 * (wall (utc 63839664000000002) - wall (datetime_utc 1601 1 1)) - 133485408000000010\<bar>
       \<le> 14
   \<and> filetime_to_datetime (Some 18446744073709551615) = Inr None"
proof -
  note t = filetime_to_datetime_conversion
    [where ft = "Some 133485408000000000" and ticks = 133485408000000010]
  note u = filetime_to_datetime_conversion [where ft = None and ticks = 18446744073709551615]
  have a: "filetime_to_datetime (Some 133485408000000000) = Inr (Some (utc 63839664000000000))"
    using t by (simp add: epoch_2024)
  have b: "tzinfo (utc 63839664000000000) = Some 0 \<and> wall (utc 63839664000000000) \<le> DATETIME_MAX"
    using t a by blast
  have "(0::int) < 1844674407370 \<and> (1844674407370::int) < 2 ^ 53"
    by simp
  with t
  have "filetime_to_datetime (Some (1844674407370 * 10000000)) =
      Inr (if wall (datetime_utc 1601 1 1) + 1844674407370 * 1000000 \<le> DATETIME_MAX
           then Some (utc (wall (datetime_utc 1601 1 1) + 1844674407370 * 1000000)) else None)"
    by blast
  then have c: "filetime_to_datetime (Some (1844674407370 * 10000000)) = Inr None"
    by (simp add: epoch_1601 utc_def DATETIME_MAX_def US_PER_DAY_def)
  have h: "(0::int) < 133485408000000010 \<and> (133485408000000010::int) < 2 ^ 64
      \<and> filetime_to_datetime (Some 133485408000000010) = Inr (Some (utc 63839664000000002))"
    by (simp add: filetime_rounding_example)
  have "\<forall>d. 0 < (133485408000000010::int) \<and> (133485408000000010::int) < 2 ^ 64
        \<and> filetime_to_datetime (Some 133485408000000010) = Inr (Some d) \<longrightarrow>
          \<bar>10 * (wall d - wall (datetime_utc 1601 1 1)) - 133485408000000010\<bar> \<le> 157
          \<and> ((133485408000000010::int) < 171798691840000000 \<longrightarrow>
                \<bar>10 * (wall d - wall (datetime_utc 1601 1 1)) - 133485408000000010\<bar> \<le> 14)"
    using t by blast
  from this [rule_format, OF h]
  have e: "\<bar>10 * (wall (utc 63839664000000002) - wall (datetime_utc 1601 1 1))
      - 133485408000000010\<bar> \<le> 14"
    by simp
  have "(18446744073709551615::int) < 2 ^ 64
      \<and> 10 * DATETIME_MAX + 157 < 10 * wall (datetime_utc 1601 1 1) + 18446744073709551615"
    by (simp add: epoch_1601 utc_def DATETIME_MAX_def US_PER_DAY_def)
  with u have f: "filetime_to_datetime (Some 18446744073709551615) = Inr None"
    by blast
  from a b c h e f show ?thesis
    by blast
qed

text \<open>
  Where the claim C4 fails as it is written: the tick count of
  2024-01-01T00:00:00.000001Z converts to 2024-01-01T00:00:00.000002Z, because
  \<open>133485408000000010 / 10000000\<close> is rounded to a float before it is split.
\<close>

theorem filetime_to_datetime_conversion_counterexample:
  "filetime_to_datetime (Some 133485408000000010) =
     Inr (Some (utc (wall (datetime_utc 1601 1 1) + 13348540800000002)))
   \<and> (13348540800000002::int) * 10 \<noteq> 133485408000000010"
  by code_simp

text \<open>
  C5, as the code has it. The Chrome value 13300000000000000 converts to the 1601 epoch
  plus that many microseconds, the Firefox value 1700000000000000 to the 1970 epoch plus
  that many microseconds, and a Firefox value from 1970-01-01 up to (not including)
  \<open>2\<^sup>3\<^sup>3\<close> seconds after it (2242-03-16) converts exactly, to the same instant as the
  Chrome value of that instant.
\<close>

theorem browser_epoch_conversions:
  "chrome_visit_dt 13300000000000000 =
     Inr (utc (wall (datetime_utc 1601 1 1) + 13300000000000000))
   \<and> (gm 1700000000 \<longrightarrow>
        firefox_visit_dt gm 1700000000000000 =
          Inr (utc (wall (datetime_utc 1970 1 1) + 1700000000000000)))
   \<and> (0 \<le> f \<and> f < 8589934592000000 \<and> gm (f div 1000000) \<longrightarrow>
        firefox_visit_dt gm f = Inr (utc (wall (datetime_utc 1970 1 1) + f))
        \<and> chrome_visit_dt (f + 11644473600000000) = firefox_visit_dt gm f)"
proof -
  have c: "chrome_visit_dt 13300000000000000 =
      Inr (utc (wall (datetime_utc 1601 1 1) + 13300000000000000))"
    using chrome_exact [of 13300000000000000] by (simp add: epoch_1601 utc_def)
  have f1: "firefox_visit_dt gm 1700000000000000 =
      Inr (utc (wall (datetime_utc 1970 1 1) + 1700000000000000))"
    if "gm 1700000000"
    using firefox_exact [of 1700000000000000 gm] that by (simp add: epoch_1970 utc_def)
  have both: "firefox_visit_dt gm f = Inr (utc (wall (datetime_utc 1970 1 1) + f))
      \<and> chrome_visit_dt (f + 11644473600000000) = firefox_visit_dt gm f"
    if h: "0 \<le> f \<and> f < 8589934592000000 \<and> gm (f div 1000000)"
  proof -
    have "firefox_visit_dt gm f = Inr (utc (62135596800000000 + f))"
      using firefox_exact [of f gm] h by simp
    moreover have "chrome_visit_dt (f + 11644473600000000) =
        Inr (utc (50491123200000000 + (f + 11644473600000000)))"
      using h by (intro chrome_exact) auto
    ultimately show ?thesis
      by (simp add: epoch_1970 utc_def)
  qed
  from c f1 both show ?thesis
    by blast
qed

theorem browser_epoch_conversions_witness:
  "gmtime_ok_windows 1700000000
   \<and> firefox_visit_dt gmtime_ok_windows 1700000000000000 = Inr (utc 63835596800000000)
   \<and> chrome_visit_dt 13344473600000000 = Inr (utc 63835596800000000)
   \<and> firefox_visit_dt gmtime_ok_windows 1700000000123457 = Inr (utc 63835596800123457)
   \<and> chrome_visit_dt 13344473600123457 = Inr (utc 63835596800123457)"
proof -
  have g: "gmtime_ok_windows 1700000000"
    by (simp add: gmtime_ok_windows_def)
  have h1: "(0::int) \<le> 1700000000000000 \<and> (1700000000000000::int) < 8589934592000000
      \<and> gmtime_ok_windows (1700000000000000 div 1000000)"
    by (simp add: gmtime_ok_windows_def)
  have h2: "(0::int) \<le> 1700000000123457 \<and> (1700000000123457::int) < 8589934592000000
      \<and> gmtime_ok_windows (1700000000123457 div 1000000)"
    by (simp add: gmtime_ok_windows_def)
  from browser_epoch_conversions [of gmtime_ok_windows 1700000000000000] h1
  have a: "firefox_visit_dt gmtime_ok_windows 1700000000000000 =
        Inr (utc (wall (datetime_utc 1970 1 1) + 1700000000000000))
      \<and> chrome_visit_dt (1700000000000000 + 11644473600000000) =
        firefox_visit_dt gmtime_ok_windows 1700000000000000"
    by blast
  from browser_epoch_conversions [of gmtime_ok_windows 1700000000123457] h2
  have b: "firefox_visit_dt gmtime_ok_windows 1700000000123457 =
        Inr (utc (wall (datetime_utc 1970 1 1) + 1700000000123457))
      \<and> chrome_visit_dt (1700000000123457 + 11644473600000000) =
        firefox_visit_dt gmtime_ok_windows 1700000000123457"
    by blast
  from g a b show ?thesis
    by (simp add: epoch_1970 utc_def)
qed

text \<open>
  Where the claim C5 fails as it is written: one microsecond after \<open>2\<^sup>3\<^sup>3\<close> seconds
  past the 1970 epoch, the Firefox conversion is a microsecond later than the Chrome
  conversion of the same instant.
\<close>

theorem browser_epoch_conversions_counterexample:
  "firefox_visit_dt (\<lambda>sec. True) 8589934592000001 =
     Inr (utc (wall (datetime_utc 1970 1 1) + 8589934592000002))
   \<and> chrome_visit_dt (8589934592000001 + 11644473600000000) =
     Inr (utc (wall (datetime_utc 1970 1 1) + 8589934592000001))"
  by code_simp


section \<open>Properties: loops\<close>

lemma for_each_inv:
  assumes "P s" and "\<And>x s. x \<in> set xs \<Longrightarrow> P s \<Longrightarrow> P (fst (body x s))"
  shows "P (fst (for_each body handler xs s))"
  using assms
proof (induction xs arbitrary: s)
  case Nil
  then show ?case by simp
next
  case (Cons x xs)
  have P1: "P (fst (body x s))" using Cons.prems by simp
  have step: "\<And>s'. P s' \<Longrightarrow> P (fst (for_each body handler xs s'))"
    using Cons.IH Cons.prems(2) by simp
  show ?case
    using P1 step
    by (cases "body x s") (auto split: option.splits loop_action.splits)
qed

section \<open>Properties: collection\<close>

lemma started_append: "started (a @ b) = started a @ started b"
  by (induction a rule: started.induct) auto

lemma run_collectors_fst:
  "fst (run_collectors cs w st) = fst st @ concat (map (contribution w) cs)"
  by (induction cs arbitrary: st) (auto simp: contribution_def Let_def split: sum.splits)

lemma run_collectors_started:
  "started (snd (run_collectors cs w st)) = started (snd st) @ map fst cs"
  by (induction cs arbitrary: st) (auto simp: Let_def started_append split: sum.splits)

lemma collect_with_concat: "collect_with cs w = concat (map (contribution w) cs)"
  by (simp add: collect_with_def run_collectors_fst)

lemma collect_with_fault:
  assumes "cs = pre @ [c] @ post" and "snd c w = Inl e"
  shows "collect_with cs w = collect_with pre w @ collect_with post w"
  using assms by (simp add: collect_with_concat contribution_def)

lemma collect_with_replace:
  assumes "i < length cs" and "f w = Inl e"
  shows "collect_with (cs[i := (fst (cs ! i), f)]) w =
    concat (map (contribution w) (take i cs)) @ concat (map (contribution w) (drop (Suc i) cs))"
proof -
  have "cs[i := (fst (cs ! i), f)] = take i cs @ [(fst (cs ! i), f)] @ drop (Suc i) cs"
    using assms(1) by (simp add: upd_conv_take_nth_drop)
  then show ?thesis
    using assms(2) by (simp add: collect_with_concat contribution_def)
qed

text \<open>
  C2. Whatever the list of collectors, the loop calls each one once, in list order; a
  collector that raises contributes nothing and the findings of all the others are
  returned, in list order. This holds for the fixed list of ten, also when any one of
  its entries is replaced by a collector that raises.
\<close>

theorem collect_fault_isolation:
  "collect_with cs w = concat (map (contribution w) cs)
   \<and> started (snd (run_collectors cs w ([], []))) = map fst cs
   \<and> (\<forall>pre c post e. cs = pre @ [c] @ post \<and> snd c w = Inl e \<longrightarrow>
         contribution w c = [] \<and> collect_with cs w = collect_with pre w @ collect_with post w)
   \<and> length (collectors host) = 10
   \<and> collect_all_artifacts host w = concat (map (contribution w) (collectors host))
   \<and> (\<forall>i f e. i < 10 \<and> f w = Inl e \<longrightarrow>
         collect_with ((collectors host)[i := (fst (collectors host ! i), f)]) w =
           concat (map (contribution w) (take i (collectors host)))
           @ concat (map (contribution w) (drop (Suc i) (collectors host))))"
proof -
  have len: "length (collectors host) = 10"
    by (simp add: collectors_def)
  have a: "started (snd (run_collectors cs w ([], []))) = map fst cs"
    by (simp add: run_collectors_started)
  have b: "\<forall>pre c post e. cs = pre @ [c] @ post \<and> snd c w = Inl e \<longrightarrow>
      contribution w c = [] \<and> collect_with cs w = collect_with pre w @ collect_with post w"
    using collect_with_fault by (auto simp: contribution_def)
  have c: "\<forall>i f e. i < 10 \<and> f w = Inl e \<longrightarrow>
      collect_with ((collectors host)[i := (fst (collectors host ! i), f)]) w =
        concat (map (contribution w) (take i (collectors host)))
        @ concat (map (contribution w) (drop (Suc i) (collectors host)))"
    using collect_with_replace [of _ "collectors host"] len by auto
  from len a b c collect_with_concat [of cs w] collect_with_concat [of "collectors host" w]
  show ?thesis
    by (simp add: collect_all_artifacts_def)
qed

lemma bare_host_collects_nothing:
  "map (\<lambda>c. snd c example_window) (collectors bare_host) = replicate 10 (Inr [])"
  by (simp add: collectors_def bare_host_def parse_userassist_def parse_prefetch_def
      parse_recent_files_def parse_usb_devices_def parse_powershell_history_def
      parse_browser_history_def parse_downloads_def parse_recentdocs_def parse_typed_paths_def
      parse_runmru_def userassist_guids_def userassist_guid_def on_missing_or_denied_def
      numeral_eq_Suc)

theorem collect_fault_isolation_witness:
  "collect_with
     [(''A'', \<lambda>w. Inr [[(''source'', PyStr ''A'')]]),
      (''B'', \<lambda>w. Inl OSError),
      (''C'', \<lambda>w. Inr [[(''source'', PyStr ''C'')]])] example_window =
     [[(''source'', PyStr ''A'')], [(''source'', PyStr ''C'')]]
   \<and> started (snd (run_collectors
       [(''A'', \<lambda>w. Inr [[(''source'', PyStr ''A'')]]),
        (''B'', \<lambda>w. Inl OSError),
        (''C'', \<lambda>w. Inr [[(''source'', PyStr ''C'')]])] example_window ([], []))) =
     [''A'', ''B'', ''C'']
   \<and> collect_with ((collectors bare_host)[1 := (fst (collectors bare_host ! 1), \<lambda>w. Inl ValueError)])
       example_window = []"
proof -
  define cs :: "(string \<times> (TriageWindow \<Rightarrow> exn + finding list)) list" where "cs =
     [(''A'', \<lambda>w. Inr [[(''source'', PyStr ''A'')]]),
      (''B'', \<lambda>w. Inl OSError),
      (''C'', \<lambda>w. Inr [[(''source'', PyStr ''C'')]])]"
  note t = collect_fault_isolation [of cs example_window bare_host]
  have a: "collect_with cs example_window = [[(''source'', PyStr ''A'')], [(''source'', PyStr ''C'')]]"
    using t by (simp add: cs_def contribution_def)
  have b: "started (snd (run_collectors cs example_window ([], []))) = [''A'', ''B'', ''C'']"
    using t by (simp add: cs_def)
  from t have repl: "\<forall>i f e. i < 10 \<and> f example_window = Inl e \<longrightarrow>
         collect_with ((collectors bare_host)[i := (fst (collectors bare_host ! i), f)])
           example_window =
           concat (map (contribution example_window) (take i (collectors bare_host)))
           @ concat (map (contribution example_window) (drop (Suc i) (collectors bare_host)))"
    by blast
  have "collect_with
      ((collectors bare_host)[1 := (fst (collectors bare_host ! 1), \<lambda>w. Inl ValueError)])
      example_window =
      concat (map (contribution example_window) (take 1 (collectors bare_host)))
      @ concat (map (contribution example_window) (drop (Suc 1) (collectors bare_host)))"
    using repl [rule_format, of 1 "\<lambda>w. Inl ValueError" ValueError] by simp
  moreover have "\<forall>c \<in> set (collectors bare_host). contribution example_window c = []"
  proof
    fix c assume "c \<in> set (collectors bare_host)"
    then have "snd c example_window \<in> set (map (\<lambda>c. snd c example_window) (collectors bare_host))"
      by (simp only: set_map) blast
    then have "snd c example_window = Inr []"
      unfolding bare_host_collects_nothing by simp
    then show "contribution example_window c = []"
      by (simp add: contribution_def)
  qed
  ultimately have c: "collect_with
      ((collectors bare_host)[1 := (fst (collectors bare_host ! 1), \<lambda>w. Inl ValueError)])
      example_window = []"
    by (auto dest: in_set_takeD in_set_dropD)
  from a b c show ?thesis
    unfolding cs_def by simp
qed

section \<open>Properties: the collectors\<close>

lemma for_each_append_ok:
  assumes "\<forall>x \<in> set xs. step x = Inr (g x)"
  shows "for_each (append_step step) handler xs acc = (acc @ concat (map g xs), None)"
  using assms by (induction xs arbitrary: acc) (auto simp: append_step_def)

lemma concat_map_if:
  "concat (map (\<lambda>x. if P x then [f x] else []) xs) = map f (filter P xs)"
  by (induction xs) auto

lemma rstrip_chars_marker:
  assumes "cmd = [] \<or> last cmd \<notin> set chars" and "set m \<subseteq> set chars"
  shows "rstrip_chars chars (cmd @ m) = cmd"
proof -
  have "dropWhile (\<lambda>c. c \<in> set chars) (rev m @ rev cmd) = rev cmd"
  proof -
    have "dropWhile (\<lambda>c. c \<in> set chars) (rev m @ rev cmd) =
        dropWhile (\<lambda>c. c \<in> set chars) (rev cmd)"
      using assms(2) by (intro dropWhile_append2) auto
    also have "\<dots> = rev cmd"
      using assms(1) by (cases cmd rule: rev_cases) auto
    finally show ?thesis .
  qed
  then show ?thesis
    by (simp add: rstrip_chars_def)
qed

lemma parse_runmru_values:
  assumes "OpenKey host HKEY_CURRENT_USER runmru_path = Inr key"
    and "key_info key = Inr last_modified"
    and "filetime_to_datetime (Some last_modified) = Inr (Some key_modified)"
    and "is_within_window w (Some key_modified) = Inr True"
    and "key_values key = map (\<lambda>v. (fst v, RegSz (snd v))) vals"
  shows "parse_runmru host w =
      Inr (map (\<lambda>v. make_finding key_modified ''Command Line'' ''RunMRU''
                 (PyStr (rstrip_chars [BACKSLASH, CHR ''1''] (snd v))) (''Entry: '' @ fst v))
            (filter (\<lambda>v. fst v \<noteq> ''MRUList'' \<and> snd v \<noteq> []) vals))"
proof -
  define mk where "mk = (\<lambda>v :: string \<times> string.
     make_finding key_modified ''Command Line'' ''RunMRU''
       (PyStr (rstrip_chars [BACKSLASH, CHR ''1''] (snd v))) (''Entry: '' @ fst v))"
  define P where "P = (\<lambda>v :: string \<times> string. fst v \<noteq> ''MRUList'' \<and> snd v \<noteq> [])"
  define g where "g = (\<lambda>nv :: string \<times> regval.
     case snd nv of RegSz s \<Rightarrow> (if P (fst nv, s) then [mk (fst nv, s)] else []) | _ \<Rightarrow> [])"
  have step: "\<forall>nv \<in> set (key_values key). runmru_value key_modified nv = Inr (g nv)"
    unfolding assms(5)
    by (auto simp: runmru_value_def g_def P_def mk_def regval_truthy_def runmru_rstrip_def Let_def)
  have "parse_runmru host w = Inr (concat (map g (key_values key)))"
    using assms(1-4) for_each_append_ok [OF step, of "on_OSError Break" "[]"]
    by (simp add: parse_runmru_def)
  also have "concat (map g (key_values key)) = concat (map (\<lambda>v. if P v then [mk v] else []) vals)"
    unfolding assms(5) by (simp add: g_def comp_def cong: if_cong)
  also have "\<dots> = map mk (filter P vals)"
    by (rule concat_map_if)
  finally show ?thesis
    unfolding mk_def P_def .
qed

lemma filetime_example:
  "filetime_to_datetime (Some 134088718000000000) = Inr (Some (utc 63899995000000000))"
  using filetime_whole_seconds [of 13408871800]
  by (simp add: DATETIME_MAX_def US_PER_DAY_def)

lemma example_in_window:
  "is_within_window example_window (Some (utc 63899995000000000)) = Inr True"
  by (simp add: is_within_window_def example_window_def utc_def dt_le_def instant_def)

lemma runmru_example:
  "parse_runmru
     (host_with_key HKEY_CURRENT_USER runmru_path
        (example_key [(''a'', RegSz (tool_command @ [BACKSLASH, CHR ''1''])),
                      (''MRUList'', RegSz ''a'')]))
     example_window =
   Inr [make_finding (utc 63899995000000000) ''Command Line'' ''RunMRU''
          (PyStr tool_command) ''Entry: a'']"
proof -
  have "parse_runmru
     (host_with_key HKEY_CURRENT_USER runmru_path
        (example_key [(''a'', RegSz (tool_command @ [BACKSLASH, CHR ''1''])),
                      (''MRUList'', RegSz ''a'')]))
     example_window =
     Inr (map (\<lambda>v. make_finding (utc 63899995000000000) ''Command Line'' ''RunMRU''
                 (PyStr (rstrip_chars [BACKSLASH, CHR ''1''] (snd v))) (''Entry: '' @ fst v))
            (filter (\<lambda>v. fst v \<noteq> ''MRUList'' \<and> snd v \<noteq> [])
               [(''a'', tool_command @ [BACKSLASH, CHR ''1'']), (''MRUList'', ''a'')]))"
    by (rule parse_runmru_values [OF _ _ filetime_example example_in_window,
          where key = "example_key [(''a'', RegSz (tool_command @ [BACKSLASH, CHR ''1''])),
                      (''MRUList'', RegSz ''a'')]"])
      (simp_all add: host_with_key_def bare_host_def example_key_def)
  moreover have "rstrip_chars [BACKSLASH, CHR ''1''] (tool_command @ [BACKSLASH, CHR ''1'']) =
      tool_command"
    by (rule rstrip_chars_marker) (simp_all add: tool_command_def BACKSLASH_def)
  ultimately show ?thesis
    by simp
qed

lemma strftime_example: "strftime_utc (utc 63899995000000000) = ''2025-11-29 06:36:40 UTC''"
  by code_simp

lemma runmru_rstrip_strips_more:
  "runmru_rstrip (RegSz (''ping 1.1.1.1'' @ [BACKSLASH, CHR ''1''])) = Inr ''ping 1.1.1.''"
  by (simp add: runmru_rstrip_def rstrip_chars_def BACKSLASH_def)





lemma make_finding_ok:
  "is_within_window w (Some d) = Inr True \<Longrightarrow> emitted_ok w (make_finding d a s desc det)"
  by (simp add: emitted_ok_def in_window_stamp_def consistent_stamp_def make_finding_def)

lemma emit_if_in_window_ok:
  assumes "emit_if_in_window w ts mk = Inr new"
    and "\<And>d. is_within_window w (Some d) = Inr True \<Longrightarrow> Q (mk d)"
  shows "\<forall>f\<in>set new. Q f"
  using assms
  by (auto simp: emit_if_in_window_def split: option.splits sum.splits bool.splits)

lemma for_each_append_inv:
  assumes "\<forall>f\<in>set acc. Q f"
    and "\<And>x new. x \<in> set xs \<Longrightarrow> step x = Inr new \<Longrightarrow> \<forall>f\<in>set new. Q f"
  shows "\<forall>f\<in>set (fst (for_each (append_step step) handler xs acc)). Q f"
proof (rule for_each_inv [where P = "\<lambda>s. \<forall>f\<in>set s. Q f"])
  show "\<forall>f\<in>set acc. Q f" by (rule assms(1))
next
  fix x s
  assume "x \<in> set xs" and "\<forall>f\<in>set s. Q f"
  then show "\<forall>f\<in>set (fst (append_step step x s)). Q f"
    using assms(2) [of x] by (auto simp: append_step_def split: sum.splits)
qed

lemma userassist_value_ok:
  assumes "userassist_value w nv = Inr new"
  shows "\<forall>f\<in>set new. emitted_ok w f"
  using assms
  by (auto simp: userassist_value_def Let_def split: sum.splits if_splits
      dest!: emit_if_in_window_ok [where Q = "emitted_ok w"] intro: make_finding_ok)

lemma userassist_guid_ok:
  assumes "\<forall>f\<in>set acc. emitted_ok w f"
  shows "\<forall>f\<in>set (fst (userassist_guid host w guid acc)). emitted_ok w f"
proof (cases "OpenKey host HKEY_CURRENT_USER (path_join userassist_base_path [guid, ''Count''])")
  case (Inl e)
  then show ?thesis using assms by (simp add: userassist_guid_def)
next
  case (Inr key)
  then show ?thesis
    using for_each_append_inv [OF assms, of "key_values key" "userassist_value w"]
      userassist_value_ok
    by (simp add: userassist_guid_def)
qed

lemma parse_userassist_ok:
  assumes "parse_userassist host w = Inr fs"
  shows "\<forall>f\<in>set fs. emitted_ok w f"
proof -
  have "\<forall>f\<in>set (fst (for_each (userassist_guid host w) (on_missing_or_denied Continue)
      userassist_guids [])). emitted_ok w f"
    by (rule for_each_inv [where P = "\<lambda>s. \<forall>f\<in>set s. emitted_ok w f"])
      (simp_all add: userassist_guid_ok)
  with assms show ?thesis by (auto simp: parse_userassist_def)
qed

lemma prefetch_file_ok:
  assumes "prefetch_file host w name = Inr new"
  shows "\<forall>f\<in>set new. emitted_ok w f"
  using assms
  by (auto simp: prefetch_file_def Let_def split: sum.splits
      dest!: emit_if_in_window_ok [where Q = "emitted_ok w"] intro: make_finding_ok)

lemma parse_prefetch_ok:
  assumes "parse_prefetch host w = Inr fs"
  shows "\<forall>f\<in>set fs. emitted_ok w f"
proof -
  have loop: "\<forall>f\<in>set (fst (for_each (append_step (prefetch_file host w)) (on_OSError Continue)
      names [])). emitted_ok w f" for names
    by (rule for_each_append_inv) (simp_all add: prefetch_file_ok)
  show ?thesis
  proof (cases "path_exists host prefetch_path")
    case (Inl e)
    with assms show ?thesis by (auto simp: parse_prefetch_def split: if_splits)
  next
    case (Inr b)
    show ?thesis
    proof (cases "path_glob host prefetch_path ''*.pf''")
      case (Inl e)
      with assms Inr show ?thesis
        by (cases b) (auto simp: parse_prefetch_def split: if_splits)
    next
      case names: (Inr names)
      show ?thesis
      proof (cases b)
        case True
        obtain fs' r where r: "for_each (append_step (prefetch_file host w))
            (on_OSError Continue) names [] = (fs', r)"
          by (cases "for_each (append_step (prefetch_file host w)) (on_OSError Continue) names []")
        with loop [of names] have "\<forall>f\<in>set fs'. emitted_ok w f" by simp
        moreover have "fs = fs'"
          using assms Inr names True r
          by (auto simp: parse_prefetch_def split: option.splits if_splits)
        ultimately show ?thesis by simp
      next
        case False
        with assms Inr show ?thesis by (auto simp: parse_prefetch_def)
      qed
    qed
  qed
qed

lemma recent_file_ok:
  assumes "recent_file host w recent_path name = Inr new"
  shows "\<forall>f\<in>set new. emitted_ok w f"
  using assms
  by (auto simp: recent_file_def Let_def split: sum.splits
      dest!: emit_if_in_window_ok [where Q = "emitted_ok w"] intro: make_finding_ok)

lemma parse_recent_files_ok:
  assumes "parse_recent_files host w = Inr fs"
  shows "\<forall>f\<in>set fs. emitted_ok w f"
proof -
  have loop: "\<forall>f\<in>set (fst (for_each (append_step (recent_file host w p)) (on_OSError Continue)
      names [])). emitted_ok w f" for names p
    by (rule for_each_append_inv) (simp_all add: recent_file_ok)
  from assms show ?thesis
    by (auto simp: parse_recent_files_def Let_def loop
        split: option.splits if_splits sum.splits bool.splits)
qed

lemma recentdocs_value_ok:
  assumes "is_within_window w (Some km) = Inr True"
    and "recentdocs_value host km extension nv = Inr new"
  shows "\<forall>f\<in>set new. emitted_ok w f"
  using assms
  by (auto simp: recentdocs_value_def Let_def make_finding_ok split: regval.splits if_splits)

lemma recentdocs_extension_ok:
  assumes "is_within_window w (Some km) = Inr True" and "\<forall>f\<in>set acc. emitted_ok w f"
  shows "\<forall>f\<in>set (fst (recentdocs_extension host km extension acc)). emitted_ok w f"
proof (cases "OpenKey host HKEY_CURRENT_USER (path_join recentdocs_base_path [extension])")
  case (Inl e)
  then show ?thesis using assms by (simp add: recentdocs_extension_def)
next
  case (Inr key)
  then show ?thesis
    using for_each_append_inv [OF assms(2), of "key_values key" "recentdocs_value host km extension"]
      recentdocs_value_ok [OF assms(1)]
    by (simp add: recentdocs_extension_def)
qed

lemma parse_recentdocs_ok:
  assumes "parse_recentdocs host w = Inr fs"
  shows "\<forall>f\<in>set fs. emitted_ok w f"
proof -
  have loop: "\<forall>f\<in>set (fst (for_each (recentdocs_extension host km) (on_OSError Break)
      exts [])). emitted_ok w f" if "is_within_window w (Some km) = Inr True" for km exts
    by (rule for_each_inv [where P = "\<lambda>s. \<forall>f\<in>set s. emitted_ok w f"])
      (simp_all add: recentdocs_extension_ok [OF that])
  from assms show ?thesis
    by (auto simp: parse_recentdocs_def loop
        split: option.splits if_splits sum.splits bool.splits)
qed

lemma usb_instance_ok:
  assumes "usb_instance host w device_path instance_id = Inr new"
  shows "\<forall>f\<in>set new. emitted_ok w f"
  using assms
  by (auto simp: usb_instance_def Let_def split: sum.splits
      dest!: emit_if_in_window_ok [where Q = "emitted_ok w"] intro: make_finding_ok)

lemma usb_device_ok:
  assumes "\<forall>f\<in>set acc. emitted_ok w f"
  shows "\<forall>f\<in>set (fst (usb_device host w device_id acc)). emitted_ok w f"
proof (cases "OpenKey host HKEY_LOCAL_MACHINE (path_join usbstor_base_path [device_id])")
  case (Inl e)
  then show ?thesis using assms by (simp add: usb_device_def)
next
  case (Inr key)
  then show ?thesis
    using for_each_append_inv [OF assms, of "key_subkeys key"
        "usb_instance host w (path_join usbstor_base_path [device_id])"]
      usb_instance_ok
    by (simp add: usb_device_def)
qed

lemma parse_usb_devices_ok:
  assumes "parse_usb_devices host w = Inr fs"
  shows "\<forall>f\<in>set fs. emitted_ok w f"
proof -
  have loop: "\<forall>f\<in>set (fst (for_each (usb_device host w) (on_OSError Break)
      ids [])). emitted_ok w f" for ids
    by (rule for_each_inv [where P = "\<lambda>s. \<forall>f\<in>set s. emitted_ok w f"])
      (simp_all add: usb_device_ok)
  from assms show ?thesis
    by (auto simp: parse_usb_devices_def loop split: sum.splits)
qed

lemma parse_powershell_history_ok:
  assumes "parse_powershell_history host w = Inr fs"
  shows "\<forall>f\<in>set fs. emitted_ok w f"
  using assms
  by (auto simp: parse_powershell_history_def Let_def make_finding_ok
      split: option.splits if_splits sum.splits bool.splits)

lemma runmru_value_ok:
  assumes "is_within_window w (Some km) = Inr True" and "runmru_value km nv = Inr new"
  shows "\<forall>f\<in>set new. emitted_ok w f"
  using assms
  by (auto simp: runmru_value_def Let_def make_finding_ok split: sum.splits if_splits)

lemma parse_runmru_ok:
  assumes "parse_runmru host w = Inr fs"
  shows "\<forall>f\<in>set fs. emitted_ok w f"
proof -
  have loop: "\<forall>f\<in>set (fst (for_each (append_step (runmru_value km)) (on_OSError Break)
      vals [])). emitted_ok w f" if "is_within_window w (Some km) = Inr True" for km vals
    by (rule for_each_append_inv) (simp_all add: runmru_value_ok [OF that])
  from assms show ?thesis
    by (auto simp: parse_runmru_def loop
        split: option.splits if_splits sum.splits bool.splits)
qed

lemma typed_paths_value_ok:
  assumes "is_within_window w (Some km) = Inr True" and "typed_paths_value km nv = Inr new"
  shows "\<forall>f\<in>set new. emitted_ok w f"
  using assms
  by (auto simp: typed_paths_value_def Let_def make_finding_ok split: if_splits)

lemma parse_typed_paths_ok:
  assumes "parse_typed_paths host w = Inr fs"
  shows "\<forall>f\<in>set fs. emitted_ok w f"
proof -
  have loop: "\<forall>f\<in>set (fst (for_each (append_step (typed_paths_value km)) (on_OSError Break)
      vals [])). emitted_ok w f" if "is_within_window w (Some km) = Inr True" for km vals
    by (rule for_each_append_inv) (simp_all add: typed_paths_value_ok [OF that])
  from assms show ?thesis
    by (auto simp: parse_typed_paths_def loop
        split: option.splits if_splits sum.splits bool.splits)
qed

lemma chromium_history_row_ok:
  assumes "chromium_history_row w browser_name row = Inr new"
  shows "\<forall>f\<in>set new. emitted_ok w f"
  using assms
  by (auto simp: chromium_history_row_def split: option.splits sum.splits
      dest!: emit_if_in_window_ok [where Q = "emitted_ok w"] intro: make_finding_ok)

lemma chromium_history_ok:
  assumes "\<forall>f\<in>set acc. emitted_ok w f"
  shows "\<forall>f\<in>set (fst (chromium_history host w browser acc)). emitted_ok w f"
proof -
  have loop: "\<forall>f\<in>set (fst (for_each (append_step (chromium_history_row w (fst browser)))
      (\<lambda>e. Propagate) rows acc)). emitted_ok w f" for rows
    by (rule for_each_append_inv [OF assms]) (simp add: chromium_history_row_ok)
  show ?thesis
    using assms loop
    by (auto simp: chromium_history_def Let_def split: sum.splits bool.splits)
qed

lemma firefox_row_ok:
  assumes "firefox_row host w row = Inr new"
  shows "\<forall>f\<in>set new. emitted_ok w f"
  using assms
  by (auto simp: firefox_row_def split: option.splits sum.splits
      dest!: emit_if_in_window_ok [where Q = "emitted_ok w"] intro: make_finding_ok)

lemma firefox_profiles_ok:
  assumes "\<forall>f\<in>set acc. emitted_ok w f"
  shows "\<forall>f\<in>set (fst (firefox_profiles host w dirs acc)). emitted_ok w f"
proof (induction dirs)
  case Nil
  then show ?case using assms by simp
next
  case (Cons d dirs)
  have loop: "\<forall>f\<in>set (fst (for_each (append_step (firefox_row host w))
      (\<lambda>e. Propagate) rows acc)). emitted_ok w f" for rows
    by (rule for_each_append_inv [OF assms]) (simp add: firefox_row_ok)
  show ?case
    using assms loop Cons.IH
    by (auto simp: Let_def split: sum.splits bool.splits)
qed

lemma firefox_history_ok:
  assumes "\<forall>f\<in>set acc. emitted_ok w f"
  shows "\<forall>f\<in>set (fst (firefox_history host w appdata acc)). emitted_ok w f"
  using assms firefox_profiles_ok [OF assms]
  by (auto simp: firefox_history_def Let_def split: sum.splits bool.splits)

lemma parse_browser_history_ok:
  assumes "parse_browser_history host w = Inr fs"
  shows "\<forall>f\<in>set fs. emitted_ok w f"
proof -
  have chromium: "\<forall>f\<in>set (fst (for_each (chromium_history host w) (\<lambda>e. Continue)
      bs [])). emitted_ok w f" for bs
    by (rule for_each_inv [where P = "\<lambda>s. \<forall>f\<in>set s. emitted_ok w f"])
      (simp_all add: chromium_history_ok)
  from assms show ?thesis
    by (auto simp: parse_browser_history_def Let_def
        split: option.splits if_splits
        dest!: bspec [OF firefox_history_ok [OF chromium]])
qed

lemma download_row_finding_ok:
  assumes "download_row_finding host w browser_name row = Inr new"
  shows "\<forall>f\<in>set new. emitted_ok w f"
  using assms
  by (auto simp: download_row_finding_def make_finding_ok
      split: option.splits sum.splits bool.splits)

lemma chromium_downloads_ok:
  assumes "\<forall>f\<in>set acc. emitted_ok w f"
  shows "\<forall>f\<in>set (fst (chromium_downloads host w browser acc)). emitted_ok w f"
proof -
  have loop: "\<forall>f\<in>set (fst (for_each (append_step (download_row_finding host w (fst browser)))
      (\<lambda>e. Propagate) rows acc)). emitted_ok w f" for rows
    by (rule for_each_append_inv [OF assms]) (simp add: download_row_finding_ok)
  show ?thesis
    using assms loop
    by (auto simp: chromium_downloads_def Let_def split: sum.splits bool.splits)
qed

lemma parse_downloads_ok:
  assumes "parse_downloads host w = Inr fs"
  shows "\<forall>f\<in>set fs. emitted_ok w f"
proof -
  have loop: "\<forall>f\<in>set (fst (for_each (chromium_downloads host w) (\<lambda>e. Continue)
      bs [])). emitted_ok w f" for bs
    by (rule for_each_inv [where P = "\<lambda>s. \<forall>f\<in>set s. emitted_ok w f"])
      (simp_all add: chromium_downloads_ok)
  from assms show ?thesis
    by (auto simp: parse_downloads_def loop split: option.splits if_splits)
qed

lemma collectors_emitted_ok:
  assumes "c \<in> set (collectors host)" and "snd c w = Inr fs"
  shows "\<forall>f\<in>set fs. emitted_ok w f"
  using assms
    parse_userassist_ok [of host w fs] parse_prefetch_ok [of host w fs]
    parse_recent_files_ok [of host w fs] parse_usb_devices_ok [of host w fs]
    parse_powershell_history_ok [of host w fs] parse_browser_history_ok [of host w fs]
    parse_downloads_ok [of host w fs] parse_recentdocs_ok [of host w fs]
    parse_typed_paths_ok [of host w fs] parse_runmru_ok [of host w fs]
  by (auto simp: collectors_def)

lemma utc_sel: "wall (utc x) = x" "tzinfo (utc x) = Some 0"
  by (simp_all add: utc_def)

lemma runmru_in_collectors: "(''RunMRU'', parse_runmru host) \<in> set (collectors host)"
  by (simp add: collectors_def)

lemma userassist_value_null:
  assumes "72 \<le> length b"
    and "filetime_to_datetime (Some (le_uint (take 8 (drop 60 b)))) = Inr None"
  shows "userassist_value w (name, RegBinary b) = Inr []"
  using assms
  by (simp add: userassist_value_def regval_len_def unpack_uint_def emit_if_in_window_def Let_def)

lemma usb_instance_null:
  assumes "get_device_install_time host (path_join device_path [instance_id]) = Inr None"
  shows "fst (append_step (usb_instance host w device_path) instance_id acc) = acc"
  using assms
  by (auto simp: append_step_def usb_instance_def emit_if_in_window_def Let_def
      split: sum.splits)

lemma key_stamp_null:
  assumes "key_info key = Inr last_modified"
    and "filetime_to_datetime (Some last_modified) = Inr None"
  shows "OpenKey host HKEY_CURRENT_USER runmru_path = Inr key \<Longrightarrow> parse_runmru host w = Inr []"
    and "OpenKey host HKEY_CURRENT_USER typed_paths_path = Inr key \<Longrightarrow>
      parse_typed_paths host w = Inr []"
    and "OpenKey host HKEY_CURRENT_USER recentdocs_base_path = Inr key \<Longrightarrow>
      parse_recentdocs host w = Inr []"
  using assms
  by (simp_all add: parse_runmru_def parse_typed_paths_def parse_recentdocs_def)

lemma row_stamp_null:
  "visit_time row = None \<Longrightarrow>
     fst (append_step (chromium_history_row w browser_name) row acc) = acc"
  "visit_time row = None \<Longrightarrow> fst (append_step (firefox_row host w) row acc) = acc"
  "start_time drow = None \<Longrightarrow>
     fst (append_step (download_row_finding host w browser_name) drow acc) = acc"
  by (simp_all add: append_step_def chromium_history_row_def firefox_row_def
      download_row_finding_def)


lemma userassist_bytes_fields:
  "length userassist_bytes = 72"
  "le_uint (take 8 (drop 60 userassist_bytes)) = 134088718000000000"
  "le_uint (take 4 (drop 4 userassist_bytes)) = 3"
  "le_uint (take 4 (drop 8 userassist_bytes)) = 1500"
  by (simp_all add: userassist_bytes_def NUL_def)

lemma le_uint_NUL: "le_uint (replicate n NUL) = 0"
  by (induction n) (simp_all add: NUL_def)

lemma userassist_never_run_fields:
  "length userassist_never_run = 72"
  "le_uint (take 8 (drop 60 userassist_never_run)) = 0"
  "le_uint (take 4 (drop 4 userassist_never_run)) = 3"
  "le_uint (take 4 (drop 8 userassist_never_run)) = 1500"
  by (simp_all add: userassist_never_run_def le_uint_NUL) (simp_all add: NUL_def)

lemma rot13_example: "rot13 ''pnyp.rkr'' = ''calc.exe''"
  by code_simp

lemma str_int_examples: "str_int 3 = ''3''" "str_int 1500 = ''1500''"
  by (simp_all add: str_int_def)

lemma userassist_value_example:
  "userassist_value example_window (''pnyp.rkr'', RegBinary userassist_bytes) =
     Inr [make_finding (utc 63899995000000000) ''Execution'' ''UserAssist'' (PyStr ''calc.exe'')
            ''Run Count: 3, Focus Time: 1500ms'']"
  by (simp add: userassist_value_def regval_len_def unpack_uint_def userassist_bytes_fields
      rot13_example str_int_examples filetime_example emit_if_in_window_def example_in_window
      Let_def)

lemma filetime_zero: "filetime_to_datetime (Some 0) = Inr None"
  by (simp add: filetime_to_datetime_def)

text \<open>
  C6. Every finding that any of the ten collectors returns carries, under
  \<open>timestamp_dt\<close>, a datetime (never \<open>None\<close>) for which \<open>is_within_window\<close> of the
  collector's window holds. A record whose timestamp resolves to \<open>None\<close> adds nothing
  to the findings, whatever its other fields: a UserAssist value whose last-run
  FILETIME converts to \<open>None\<close>, a USB instance without an install time, a history or
  download row without a time; and when the last-modified time of the RunMRU,
  TypedPaths or RecentDocs key converts to \<open>None\<close>, the collector returns nothing.
\<close>

theorem emitted_findings_in_window:
  "(\<forall>c\<in>set (collectors host). \<forall>fs. snd c w = Inr fs \<longrightarrow>
      (\<forall>f\<in>set fs. in_window_stamp w f
         \<and> (\<exists>d. map_of f ''timestamp_dt'' = Some (PyDatetime d)
                \<and> is_within_window w (Some d) = Inr True)))
   \<and> (\<forall>name b acc. 72 \<le> length b
          \<and> filetime_to_datetime (Some (le_uint (take 8 (drop 60 b)))) = Inr None \<longrightarrow>
          append_step (userassist_value w) (name, RegBinary b) acc = (acc, None))
   \<and> (\<forall>device_path instance_id acc.
          get_device_install_time host (path_join device_path [instance_id]) = Inr None \<longrightarrow>
          fst (append_step (usb_instance host w device_path) instance_id acc) = acc)
   \<and> (\<forall>browser_name row acc. visit_time row = None \<longrightarrow>
          fst (append_step (chromium_history_row w browser_name) row acc) = acc
          \<and> fst (append_step (firefox_row host w) row acc) = acc)
   \<and> (\<forall>browser_name row acc. start_time row = None \<longrightarrow>
          fst (append_step (download_row_finding host w browser_name) row acc) = acc)
   \<and> (\<forall>key last_modified. key_info key = Inr last_modified
          \<and> filetime_to_datetime (Some last_modified) = Inr None \<longrightarrow>
          (OpenKey host HKEY_CURRENT_USER runmru_path = Inr key \<longrightarrow>
             parse_runmru host w = Inr [])
          \<and> (OpenKey host HKEY_CURRENT_USER typed_paths_path = Inr key \<longrightarrow>
               parse_typed_paths host w = Inr [])
          \<and> (OpenKey host HKEY_CURRENT_USER recentdocs_base_path = Inr key \<longrightarrow>
               parse_recentdocs host w = Inr []))"
proof -
  have "in_window_stamp w f \<and> (\<exists>d. map_of f ''timestamp_dt'' = Some (PyDatetime d)
      \<and> is_within_window w (Some d) = Inr True)"
    if "c \<in> set (collectors host)" "snd c w = Inr fs" "f \<in> set fs" for c fs f
  proof -
    from collectors_emitted_ok [OF that(1,2)] that(3) have ok: "in_window_stamp w f"
      by (simp add: emitted_ok_def)
    then show ?thesis
      by (auto simp: in_window_stamp_def split: option.splits pyval.splits)
  qed
  then have a: "\<forall>c\<in>set (collectors host). \<forall>fs. snd c w = Inr fs \<longrightarrow>
      (\<forall>f\<in>set fs. in_window_stamp w f
         \<and> (\<exists>d. map_of f ''timestamp_dt'' = Some (PyDatetime d)
                \<and> is_within_window w (Some d) = Inr True))"
    by blast
  have b: "\<forall>name b acc. 72 \<le> length b
          \<and> filetime_to_datetime (Some (le_uint (take 8 (drop 60 b)))) = Inr None \<longrightarrow>
          append_step (userassist_value w) (name, RegBinary b) acc = (acc, None)"
    by (simp add: append_step_def userassist_value_null)
  have c: "\<forall>device_path instance_id acc.
          get_device_install_time host (path_join device_path [instance_id]) = Inr None \<longrightarrow>
          fst (append_step (usb_instance host w device_path) instance_id acc) = acc"
    using usb_instance_null by blast
  have d: "\<forall>browser_name row acc. visit_time row = None \<longrightarrow>
          fst (append_step (chromium_history_row w browser_name) row acc) = acc
          \<and> fst (append_step (firefox_row host w) row acc) = acc"
    using row_stamp_null(1,2) by blast
  have e: "\<forall>browser_name row acc. start_time row = None \<longrightarrow>
          fst (append_step (download_row_finding host w browser_name) row acc) = acc"
    using row_stamp_null(3) by blast
  have f: "\<forall>key last_modified. key_info key = Inr last_modified
          \<and> filetime_to_datetime (Some last_modified) = Inr None \<longrightarrow>
          (OpenKey host HKEY_CURRENT_USER runmru_path = Inr key \<longrightarrow>
             parse_runmru host w = Inr [])
          \<and> (OpenKey host HKEY_CURRENT_USER typed_paths_path = Inr key \<longrightarrow>
               parse_typed_paths host w = Inr [])
          \<and> (OpenKey host HKEY_CURRENT_USER recentdocs_base_path = Inr key \<longrightarrow>
               parse_recentdocs host w = Inr [])"
    using key_stamp_null by blast
  from a b c d e f show ?thesis
    by (intro conjI)
qed

theorem emitted_findings_in_window_witness:
  "parse_runmru
     (host_with_key HKEY_CURRENT_USER runmru_path
        (example_key [(''a'', RegSz (tool_command @ [BACKSLASH, CHR ''1''])),
                      (''MRUList'', RegSz ''a'')]))
     example_window =
     Inr [make_finding (utc 63899995000000000) ''Command Line'' ''RunMRU''
            (PyStr tool_command) ''Entry: a'']
   \<and> in_window_stamp example_window
       (make_finding (utc 63899995000000000) ''Command Line'' ''RunMRU''
          (PyStr tool_command) ''Entry: a'')
   \<and> map_of (make_finding (utc 63899995000000000) ''Command Line'' ''RunMRU''
          (PyStr tool_command) ''Entry: a'') ''timestamp_dt'' =
       Some (PyDatetime (utc 63899995000000000))
   \<and> is_within_window example_window (Some (utc 63899995000000000)) = Inr True
   \<and> 72 \<le> length userassist_never_run
   \<and> filetime_to_datetime (Some (le_uint (take 8 (drop 60 userassist_never_run)))) = Inr None
   \<and> append_step (userassist_value example_window)
         (''pnyp.rkr'', RegBinary userassist_never_run)
         [make_finding (utc 63899995000000000) ''Execution'' ''UserAssist'' (PyStr ''calc.exe'')
            ''Run Count: 3, Focus Time: 1500ms''] =
       ([make_finding (utc 63899995000000000) ''Execution'' ''UserAssist'' (PyStr ''calc.exe'')
           ''Run Count: 3, Focus Time: 1500ms''], None)
   \<and> parse_userassist
       (host_with_key HKEY_CURRENT_USER
          (path_join userassist_base_path [''{F4E57C4B-2036-45F0-A9AB-443BCFE33D9F}'', ''Count''])
          (example_key [(''pnyp.rkr'', RegBinary userassist_bytes),
                        (''pnyp.rkr'', RegBinary userassist_never_run)]))
       example_window =
       Inr [make_finding (utc 63899995000000000) ''Execution'' ''UserAssist'' (PyStr ''calc.exe'')
              ''Run Count: 3, Focus Time: 1500ms'']
   \<and> parse_runmru
       (host_with_key HKEY_CURRENT_USER runmru_path
          ((example_key [(''a'', RegSz (tool_command @ [BACKSLASH, CHR ''1'']))])
             \<lparr>key_info := Inr 0\<rparr>))
       example_window = Inr []"
proof -
  define host where "host = host_with_key HKEY_CURRENT_USER runmru_path
        (example_key [(''a'', RegSz (tool_command @ [BACKSLASH, CHR ''1''])),
                      (''MRUList'', RegSz ''a'')])"
  define f where "f = make_finding (utc 63899995000000000) ''Command Line'' ''RunMRU''
            (PyStr tool_command) ''Entry: a''"
  define g where "g = make_finding (utc 63899995000000000) ''Execution'' ''UserAssist''
            (PyStr ''calc.exe'') ''Run Count: 3, Focus Time: 1500ms''"
  define nokey where "nokey = (example_key [(''a'', RegSz (tool_command @ [BACKSLASH, CHR ''1'']))])
             \<lparr>key_info := Inr 0\<rparr>"
  define host0 where "host0 = host_with_key HKEY_CURRENT_USER runmru_path nokey"
  define hostu where "hostu = host_with_key HKEY_CURRENT_USER
          (path_join userassist_base_path [''{F4E57C4B-2036-45F0-A9AB-443BCFE33D9F}'', ''Count''])
          (example_key [(''pnyp.rkr'', RegBinary userassist_bytes),
                        (''pnyp.rkr'', RegBinary userassist_never_run)])"
  have run: "snd (''RunMRU'', parse_runmru host) example_window = Inr [f]"
    using runmru_example by (simp add: host_def f_def)
  note t = emitted_findings_in_window [of host example_window]
  from t
  have "\<forall>c\<in>set (collectors host). \<forall>fs. snd c example_window = Inr fs \<longrightarrow>
      (\<forall>f\<in>set fs. in_window_stamp example_window f
         \<and> (\<exists>d. map_of f ''timestamp_dt'' = Some (PyDatetime d)
                \<and> is_within_window example_window (Some d) = Inr True))"
    by blast
  from this [rule_format, OF runmru_in_collectors run, of f]
  have a: "in_window_stamp example_window f" by simp
  have b: "map_of f ''timestamp_dt'' = Some (PyDatetime (utc 63899995000000000))"
    by (simp add: f_def make_finding_def)
  have h: "72 \<le> length userassist_never_run
      \<and> filetime_to_datetime (Some (le_uint (take 8 (drop 60 userassist_never_run)))) = Inr None"
    by (simp add: userassist_never_run_fields filetime_zero)
  from t have "\<forall>name b acc. 72 \<le> length b
          \<and> filetime_to_datetime (Some (le_uint (take 8 (drop 60 b)))) = Inr None \<longrightarrow>
          append_step (userassist_value example_window) (name, RegBinary b) acc = (acc, None)"
    by blast
  from this [rule_format, OF h]
  have step: "append_step (userassist_value example_window)
      (''pnyp.rkr'', RegBinary userassist_never_run) acc = (acc, None)" for acc
    by blast
  have first: "append_step (userassist_value example_window)
      (''pnyp.rkr'', RegBinary userassist_bytes) [] = ([g], None)"
    by (simp add: append_step_def userassist_value_example g_def)
  have u: "parse_userassist hostu example_window = Inr [g]"
    by (simp add: parse_userassist_def userassist_guids_def userassist_guid_def hostu_def
        host_with_key_def bare_host_def example_key_def on_missing_or_denied_def path_join_def
        first step)
  from emitted_findings_in_window [of host0 example_window]
  have "\<forall>key last_modified. key_info key = Inr last_modified
          \<and> filetime_to_datetime (Some last_modified) = Inr None \<longrightarrow>
          (OpenKey host0 HKEY_CURRENT_USER runmru_path = Inr key \<longrightarrow>
             parse_runmru host0 example_window = Inr [])"
    by blast
  from this [rule_format, of nokey 0]
  have z: "parse_runmru host0 example_window = Inr []"
    by (simp add: nokey_def host0_def host_with_key_def bare_host_def filetime_zero)
  from run a b example_in_window h step [of "[g]"] u z show ?thesis
    unfolding host_def f_def g_def hostu_def host0_def nokey_def by simp
qed

lemma csv_row_utc_cell:
  assumes "csv_row local_offset g = Inr row"
  shows "map_of g ''timestamp'' = Some (row ! 0)"
  using assms
  by (auto simp: csv_row_def dict_item_def Let_def split: option.splits sum.splits)

text \<open>
  C9. Every finding that any of the ten collectors returns has its \<open>timestamp\<close> equal
  to its \<open>timestamp_dt\<close> formatted as \<open>%Y-%m-%d %H:%M:%S UTC\<close>. The CSV sink writes the
  \<open>timestamp\<close> of any finding as it stands (it does not compare it with
  \<open>timestamp_dt\<close>), so for a collector's finding the UTC cell is the formatted
  \<open>timestamp_dt\<close>.
\<close>

theorem emitted_timestamps_consistent:
  "(\<forall>c\<in>set (collectors host). \<forall>fs. snd c w = Inr fs \<longrightarrow>
      (\<forall>f\<in>set fs. consistent_stamp f
         \<and> (\<exists>d. map_of f ''timestamp_dt'' = Some (PyDatetime d)
                \<and> map_of f ''timestamp'' = Some (PyStr (strftime_utc d))
                \<and> (\<forall>row. csv_row local_offset f = Inr row \<longrightarrow> row ! 0 = PyStr (strftime_utc d)))))
   \<and> (\<forall>g row. csv_row local_offset g = Inr row \<longrightarrow> map_of g ''timestamp'' = Some (row ! 0))"
proof -
  have "consistent_stamp f \<and> (\<exists>d. map_of f ''timestamp_dt'' = Some (PyDatetime d)
      \<and> map_of f ''timestamp'' = Some (PyStr (strftime_utc d))
      \<and> (\<forall>row. csv_row local_offset f = Inr row \<longrightarrow> row ! 0 = PyStr (strftime_utc d)))"
    if "c \<in> set (collectors host)" "snd c w = Inr fs" "f \<in> set fs" for c fs f
  proof -
    from collectors_emitted_ok [OF that(1,2)] that(3) have ok: "consistent_stamp f"
      by (simp add: emitted_ok_def)
    then obtain d where d: "map_of f ''timestamp_dt'' = Some (PyDatetime d)"
      "map_of f ''timestamp'' = Some (PyStr (strftime_utc d))"
      by (auto simp: consistent_stamp_def split: option.splits pyval.splits)
    have "row ! 0 = PyStr (strftime_utc d)" if "csv_row local_offset f = Inr row" for row
      using csv_row_utc_cell [OF that] d(2) by simp
    with ok d show ?thesis by blast
  qed
  moreover have "\<forall>g row. csv_row local_offset g = Inr row \<longrightarrow>
      map_of g ''timestamp'' = Some (row ! 0)"
    using csv_row_utc_cell by blast
  ultimately show ?thesis
    by blast
qed

theorem emitted_timestamps_consistent_witness:
  "parse_runmru
     (host_with_key HKEY_CURRENT_USER runmru_path
        (example_key [(''a'', RegSz (tool_command @ [BACKSLASH, CHR ''1''])),
                      (''MRUList'', RegSz ''a'')]))
     example_window =
     Inr [make_finding (utc 63899995000000000) ''Command Line'' ''RunMRU''
            (PyStr tool_command) ''Entry: a'']
   \<and> consistent_stamp
       (make_finding (utc 63899995000000000) ''Command Line'' ''RunMRU''
          (PyStr tool_command) ''Entry: a'')
   \<and> map_of (make_finding (utc 63899995000000000) ''Command Line'' ''RunMRU''
          (PyStr tool_command) ''Entry: a'') ''timestamp'' =
       Some (PyStr ''2025-11-29 06:36:40 UTC'')
   \<and> csv_row 3600000000
       (make_finding (utc 63899995000000000) ''Command Line'' ''RunMRU''
          (PyStr tool_command) ''Entry: a'') =
       Inr [PyStr ''2025-11-29 06:36:40 UTC'', PyStr ''2025-11-29 07:36:40'',
            PyStr ''Command Line'', PyStr ''RunMRU'', PyStr tool_command, PyStr ''Entry: a'']"
proof -
  define host where "host = host_with_key HKEY_CURRENT_USER runmru_path
        (example_key [(''a'', RegSz (tool_command @ [BACKSLASH, CHR ''1''])),
                      (''MRUList'', RegSz ''a'')])"
  define f where "f = make_finding (utc 63899995000000000) ''Command Line'' ''RunMRU''
            (PyStr tool_command) ''Entry: a''"
  have run: "snd (''RunMRU'', parse_runmru host) example_window = Inr [f]"
    using runmru_example by (simp add: host_def f_def)
  from emitted_timestamps_consistent [of host example_window 3600000000]
  have "\<forall>c\<in>set (collectors host). \<forall>fs. snd c example_window = Inr fs \<longrightarrow>
      (\<forall>f\<in>set fs. consistent_stamp f
         \<and> (\<exists>d. map_of f ''timestamp_dt'' = Some (PyDatetime d)
                \<and> map_of f ''timestamp'' = Some (PyStr (strftime_utc d))
                \<and> (\<forall>row. csv_row 3600000000 f = Inr row \<longrightarrow> row ! 0 = PyStr (strftime_utc d))))"
    by blast
  from this [rule_format, OF runmru_in_collectors run, of f]
  have c: "consistent_stamp f" by simp
  have ts: "map_of f ''timestamp'' = Some (PyStr ''2025-11-29 06:36:40 UTC'')"
    by (simp add: f_def make_finding_def strftime_example)
  have loc: "strftime_seconds \<lparr>wall = 63899998600000000, tzinfo = Some 3600000000\<rparr> =
      ''2025-11-29 07:36:40''"
    by code_simp
  have row: "csv_row 3600000000 f =
       Inr [PyStr ''2025-11-29 06:36:40 UTC'', PyStr ''2025-11-29 07:36:40'',
            PyStr ''Command Line'', PyStr ''RunMRU'', PyStr tool_command, PyStr ''Entry: a'']"
    by (simp add: f_def csv_row_def csv_local_timestamp_def dict_item_def make_finding_def
        strftime_example utc_sel DATETIME_MAX_def US_PER_DAY_def loc)
  from run c ts row show ?thesis
    unfolding host_def f_def by simp
qed

end
